theory Spec2Isabelle
  imports Complex_Main
begin

section \<open>Data model (src/types.ts)\<close>

text \<open>
  A TypeScript \<open>number\<close> that holds a measured quantity (weight, grams, densities,
  shares, targets) is modelled as a \<open>real\<close>: arithmetic is exact, and the values NaN and
  the infinities do not exist. The four counting fields of the profile (\<open>cycleDays\<close>,
  \<open>nHigh\<close>, \<open>nMed\<close>, \<open>nLow\<close>) are modelled as \<open>int\<close>: the source type admits
  negative values, and nothing in \<open>calc.ts\<close> rejects them.
\<close>

datatype BodyType = Endo | Ecto

datatype DayType = High | Medium | Low

datatype Basis = Raw | Cooked | Fresh

datatype Category = Protein | Carb | Fat | Veg | Fruit | Dairy | Other

text \<open>
  \<open>FoodVariant\<close>: the fields \<open>basis\<close>, \<open>kcal?\<close>, \<open>p\<close>, \<open>c\<close>, \<open>f\<close> of the source carry the
  prefix \<open>v_\<close> here (record fields are global constants in HOL). The optional
  \<open>kcal\<close> is an \<open>option\<close>.
\<close>

record FoodVariant =
  v_basis :: Basis
  v_kcal :: "real option"
  v_p :: real
  v_c :: real
  v_f :: real

record FoodItem =
  food_id :: string
  name_en :: string
  name_zh :: string
  category :: Category
  emoji :: string
  variants :: "FoodVariant list"

text \<open>\<open>Record<DayType, number>\<close> is a total function on the three day types.\<close>

record PlannerProfile =
  sex :: string
  weightKg :: real
  bodyType :: BodyType
  proteinPerKg :: real
  ectoFatPerKg :: real
  cycleDays :: int
  nHigh :: int
  nMed :: int
  nLow :: int
  carbShares :: "DayType \<Rightarrow> real"
  fatShares :: "DayType \<Rightarrow> real"
  dayPlacement :: "DayType list"

record DayTarget =
  day :: nat
  dayType :: DayType
  proteinTarget :: real
  carbTarget :: real
  fatTarget :: real

record DayFoodEntry =
  foodId :: string
  basis :: Basis
  grams :: real

text \<open>\<open>DayTotals\<close>: fields \<open>kcal\<close>, \<open>p\<close>, \<open>c\<close>, \<open>f\<close> with the prefix \<open>t_\<close>.\<close>

record DayTotals =
  t_kcal :: real
  t_p :: real
  t_c :: real
  t_f :: real

text \<open>The solver's target \<open>{ p, c, f }\<close>: fields with the prefix \<open>g_\<close>.\<close>

record MacroTarget =
  g_p :: real
  g_c :: real
  g_f :: real

text \<open>The value returned by \<open>calculateCycle\<close>.\<close>

record CycleResult =
  dayTargets :: "DayTarget list"
  pDay :: real
  cTotal :: real
  fTotal :: real

section \<open>Cycle arithmetic (src/utils/calc.ts)\<close>

text \<open>
  \<open>round2(n) = Math.round(n * 100) / 100\<close>. \<open>Math.round\<close> rounds to the nearest
  integer and takes a tie towards plus infinity, which is \<open>\<lfloor>x + 1/2\<rfloor>\<close>.
\<close>

definition round2 :: "real \<Rightarrow> real" where
  "round2 n = of_int \<lfloor>n * 100 + 1 / 2\<rfloor> / 100"

subsection \<open>normalizePlacement\<close>

text \<open>
  \<open>arr.slice(0, e)\<close>: a negative end counts from the end of the array (and stops at 0),
  an end beyond the length stops at the length.
\<close>

definition slice0 :: "'a list \<Rightarrow> int \<Rightarrow> 'a list" where
  "slice0 xs e = (if e < 0 then take (nat (int (length xs) + e)) xs else take (nat e) xs)"

text \<open>\<open>while (out.length < profile.cycleDays) out.push('Low')\<close>\<close>

function padLow :: "DayType list \<Rightarrow> int \<Rightarrow> DayType list" where
  "padLow out cd = (if int (length out) < cd then padLow (out @ [Low]) cd else out)"
  by pat_completeness auto
termination
  by (relation "measure (\<lambda>(out, cd). nat (cd - int (length out)))") auto

declare padLow.simps [simp del]

text \<open>The local \<open>count\<close>: \<open>arr.filter((d) => d === k).length\<close>, one key at a time.\<close>

definition countDays :: "DayType list \<Rightarrow> DayType \<Rightarrow> nat" where
  "countDays arr k = length (filter (\<lambda>d. d = k) arr)"

definition extrasOf :: "DayType list \<Rightarrow> (DayType \<Rightarrow> int) \<Rightarrow> DayType \<Rightarrow> int" where
  "extrasOf out required k = max 0 (int (countDays out k) - required k)"

definition lacksOf :: "DayType list \<Rightarrow> (DayType \<Rightarrow> int) \<Rightarrow> DayType \<Rightarrow> int" where
  "lacksOf out required k = max 0 (required k - int (countDays out k))"

text \<open>
  The repair loop \<open>for (let i = out.length - 1; i >= 0; i -= 1)\<close>. The first argument
  counts the positions still to visit, so \<open>scan (Suc i)\<close> is the loop body at index \<open>i\<close>.
  The mutable \<open>out\<close>, \<open>extras\<close> and \<open>lacks\<close> are passed along and returned.
\<close>

fun scan :: "nat \<Rightarrow> DayType list \<Rightarrow> (DayType \<Rightarrow> int) \<Rightarrow> (DayType \<Rightarrow> int)
    \<Rightarrow> DayType list \<times> (DayType \<Rightarrow> int) \<times> (DayType \<Rightarrow> int)" where
  "scan 0 out extras lacks = (out, extras, lacks)"
| "scan (Suc i) out extras lacks =
     (let d = out ! i in
      if extras d \<le> 0 then scan i out extras lacks
      else (case find (\<lambda>k. lacks k > 0) [High, Medium, Low] of
              None \<Rightarrow> scan i out extras lacks
            | Some target \<Rightarrow>
                scan i (out[i := target]) (extras(d := extras d - 1))
                  (lacks(target := lacks target - 1))))"

definition requiredOf :: "PlannerProfile \<Rightarrow> DayType \<Rightarrow> int" where
  "requiredOf profile k = (case k of High \<Rightarrow> nHigh profile | Medium \<Rightarrow> nMed profile | Low \<Rightarrow> nLow profile)"

text \<open>The sequence after truncation and padding, before the repair loop.\<close>

definition resized :: "PlannerProfile \<Rightarrow> DayType list" where
  "resized profile = padLow (slice0 (dayPlacement profile) (cycleDays profile)) (cycleDays profile)"

definition normalizePlacement :: "PlannerProfile \<Rightarrow> DayType list" where
  "normalizePlacement profile =
     (let required = requiredOf profile;
          out = resized profile
      in fst (scan (length out) out (extrasOf out required) (lacksOf out required)))"

subsection \<open>validateProfile\<close>

definition validateProfile :: "PlannerProfile \<Rightarrow> string list" where
  "validateProfile profile =
     (let errors1 = (if nHigh profile + nMed profile + nLow profile \<noteq> cycleDays profile
                     then [''Day counts must sum to cycle days.''] else []);
          carbShareSum = carbShares profile High + carbShares profile Medium + carbShares profile Low;
          fatShareSum = fatShares profile High + fatShares profile Medium + fatShares profile Low;
          errors2 = errors1 @ (if \<bar>carbShareSum - 1\<bar> > 1 / 1000000
                               then [''Carb shares must sum to 1.0.''] else []);
          errors3 = errors2 @ (if \<bar>fatShareSum - 1\<bar> > 1 / 1000000
                               then [''Fat shares must sum to 1.0.''] else [])
      in errors3 @
         (if int (countDays (dayPlacement profile) High) \<noteq> nHigh profile
             \<or> int (countDays (dayPlacement profile) Medium) \<noteq> nMed profile
             \<or> int (countDays (dayPlacement profile) Low) \<noteq> nLow profile
          then [''Day placement must keep fixed counts for High/Medium/Low.''] else []))"

subsection \<open>calculateCycle\<close>

definition carbPerKg :: "PlannerProfile \<Rightarrow> real" where
  "carbPerKg profile = (if bodyType profile = Endo then 2 else 3)"

definition fatPerKg :: "PlannerProfile \<Rightarrow> real" where
  "fatPerKg profile = (if bodyType profile = Endo then 8 / 10 else ectoFatPerKg profile)"

text \<open>\<open>perTypeC\<close> and \<open>perTypeF\<close>: the per-day value of a category, from a cycle total.\<close>

definition perType :: "PlannerProfile \<Rightarrow> real \<Rightarrow> (DayType \<Rightarrow> real) \<Rightarrow> DayType \<Rightarrow> real" where
  "perType profile tot shares k =
     (if requiredOf profile k > 0 then (tot * shares k) / of_int (requiredOf profile k) else 0)"

definition calculateCycle :: "PlannerProfile \<Rightarrow> CycleResult" where
  "calculateCycle profile =
     (let pDay0 = weightKg profile * proteinPerKg profile;
          cTotal0 = weightKg profile * carbPerKg profile * of_int (cycleDays profile);
          fTotal0 = weightKg profile * fatPerKg profile * of_int (cycleDays profile)
      in \<lparr> dayTargets =
             map (\<lambda>(idx, dt). \<lparr> day = idx + 1, dayType = dt,
                                proteinTarget = round2 pDay0,
                                carbTarget = round2 (perType profile cTotal0 (carbShares profile) dt),
                                fatTarget = round2 (perType profile fTotal0 (fatShares profile) dt) \<rparr>)
                 (enumerate 0 (dayPlacement profile)),
           pDay = round2 pDay0, cTotal = round2 cTotal0, fTotal = round2 fTotal0 \<rparr>)"

section \<open>Totals and the quantity solver (src/utils/solver.ts)\<close>

text \<open>
  \<open>Map<string, FoodItem>\<close> is a partial map. An uncaught \<open>TypeError\<close> (reading a
  property of \<open>undefined\<close>) is the result \<open>None\<close> of the operation that raises it.
\<close>

type_synonym FoodsMap = "string \<rightharpoonup> FoodItem"

text \<open>
  \<open>food.variants.find((v) => v.basis === basis) ?? food.variants[0]\<close>. On an empty
  array both \<open>find\<close> and the index \<open>[0]\<close> give \<open>undefined\<close>, which is \<open>None\<close> here.
\<close>

definition getVariant :: "FoodItem \<Rightarrow> Basis \<Rightarrow> FoodVariant option" where
  "getVariant food b =
     (case find (\<lambda>v. v_basis v = b) (variants food) of
        Some v \<Rightarrow> Some v
      | None \<Rightarrow> (case variants food of [] \<Rightarrow> None | v # _ \<Rightarrow> Some v))"

text \<open>
  The loop of \<open>computeTotals\<close> over the accumulators \<open>(kcal, p, c, f)\<close>. Reading
  \<open>v.kcal\<close> of an undefined variant raises.
\<close>

fun totalsLoop :: "FoodsMap \<Rightarrow> DayFoodEntry list \<Rightarrow> real \<times> real \<times> real \<times> real
    \<Rightarrow> (real \<times> real \<times> real \<times> real) option" where
  "totalsLoop foodsMap [] acc = Some acc"
| "totalsLoop foodsMap (e # es) (kcal, p, c, f) =
     (case foodsMap (foodId e) of
        None \<Rightarrow> totalsLoop foodsMap es (kcal, p, c, f)
      | Some food \<Rightarrow>
          (case getVariant food (basis e) of
             None \<Rightarrow> None
           | Some v \<Rightarrow>
               (let ratio = max 0 (grams e) / 100
                in totalsLoop foodsMap es
                     (kcal + (case v_kcal v of None \<Rightarrow> 0 | Some k \<Rightarrow> k) * ratio,
                      p + v_p v * ratio, c + v_c v * ratio, f + v_f v * ratio))))"

definition computeTotals :: "DayFoodEntry list \<Rightarrow> FoodsMap \<Rightarrow> DayTotals option" where
  "computeTotals entries foodsMap =
     (case totalsLoop foodsMap entries (0, 0, 0, 0) of
        None \<Rightarrow> None
      | Some (kcal, p, c, f) \<Rightarrow>
          Some \<lparr> t_kcal = round2 kcal, t_p = round2 p, t_c = round2 c, t_f = round2 f \<rparr>)"

definition score :: "MacroTarget \<Rightarrow> DayTotals \<Rightarrow> real" where
  "score target totals =
     \<bar>g_p target - t_p totals\<bar> + \<bar>g_c target - t_c totals\<bar> + \<bar>g_f target - t_f totals\<bar>"

subsection \<open>Phase 1: assign\<close>

text \<open>The macro key \<open>'p' | 'c' | 'f'\<close> and the read \<open>v[macro]\<close>.\<close>

datatype Macro = MacroP | MacroC | MacroF

definition macroOf :: "Macro \<Rightarrow> FoodVariant \<Rightarrow> real" where
  "macroOf m v = (case m of MacroP \<Rightarrow> v_p v | MacroC \<Rightarrow> v_c v | MacroF \<Rightarrow> v_f v)"

text \<open>
  The groups \<open>proteins\<close>, \<open>carbs\<close>, \<open>fats\<close> hold references to the objects of
  \<open>entries\<close>, and \<open>assign\<close> writes through them. A group is therefore the list of the
  positions in \<open>entries\<close> that pass the filter \<open>food?.category === cat\<close>.
\<close>

definition inGroup :: "FoodsMap \<Rightarrow> Category \<Rightarrow> DayFoodEntry \<Rightarrow> bool" where
  "inGroup foodsMap cat e =
     (case foodsMap (foodId e) of None \<Rightarrow> False | Some food \<Rightarrow> category food = cat)"

definition groupOf :: "FoodsMap \<Rightarrow> Category \<Rightarrow> DayFoodEntry list \<Rightarrow> nat list" where
  "groupOf foodsMap cat entries = filter (\<lambda>i. inGroup foodsMap cat (entries ! i)) [0..<length entries]"

text \<open>
  The callback of \<open>.map\<close> in \<open>assign\<close>: \<open>foodsMap.get(e.foodId)!\<close>, then
  \<open>getVariant\<close>, then \<open>v[macro]\<close>, which raises on an undefined variant.
\<close>

definition densityOf :: "FoodsMap \<Rightarrow> Macro \<Rightarrow> DayFoodEntry \<Rightarrow> real option" where
  "densityOf foodsMap m e =
     (case foodsMap (foodId e) of
        None \<Rightarrow> None
      | Some food \<Rightarrow>
          (case getVariant food (basis e) of None \<Rightarrow> None | Some v \<Rightarrow> Some (macroOf m v)))"

text \<open>\<open>for (const item of sorted)\<close>, with \<open>remaining\<close> and the entries passed along.\<close>

fun fillLoop :: "(nat \<times> real) list \<Rightarrow> real \<Rightarrow> DayFoodEntry list \<Rightarrow> DayFoodEntry list" where
  "fillLoop [] remaining entries = entries"
| "fillLoop ((i, density) # rest) remaining entries =
     (if remaining \<le> 0 then entries
      else (let g = max 0 ((remaining / density) * 100)
            in fillLoop rest (remaining - density * (g / 100))
                 (entries[i := (entries ! i)\<lparr>grams := grams (entries ! i) + g\<rparr>])))"

text \<open>
  \<open>.sort((a, b) => b.density - a.density)\<close> is a stable sort by descending density:
  \<open>sort_key\<close> with the negated density as key.
\<close>

definition assign :: "FoodsMap \<Rightarrow> nat list \<Rightarrow> Macro \<Rightarrow> real \<Rightarrow> DayFoodEntry list
    \<Rightarrow> DayFoodEntry list option" where
  "assign foodsMap grp m needed entries =
     (if grp = [] \<or> needed \<le> 0 then Some entries
      else (case those (map (\<lambda>i. map_option (\<lambda>d. (i, d)) (densityOf foodsMap m (entries ! i))) grp) of
              None \<Rightarrow> None
            | Some items \<Rightarrow>
                Some (fillLoop (sort_key (\<lambda>x. - snd x) (filter (\<lambda>x. snd x > 0) items))
                        needed entries)))"

subsection \<open>Phase 2: local search\<close>

definition step :: real where
  "step = 5"

text \<open>The candidate moves in the order of the two nested loops: per index, \<open>[step, -step]\<close>.\<close>

definition moves :: "DayFoodEntry list \<Rightarrow> (nat \<times> real) list" where
  "moves entries = concat (map (\<lambda>idx. [(idx, step), (idx, - step)]) [0..<length entries])"

text \<open>\<open>entries[idx].grams += delta\<close> for the trial evaluation.\<close>

definition trial :: "DayFoodEntry list \<Rightarrow> nat \<Rightarrow> real \<Rightarrow> DayFoodEntry list" where
  "trial entries idx delta = entries[idx := (entries ! idx)\<lparr>grams := grams (entries ! idx) + delta\<rparr>]"

text \<open>
  The inner loops over the state \<open>(bestScore, bestIdx, bestDelta)\<close>. The entry is restored
  after each trial, so every trial starts from the same \<open>entries\<close>.
\<close>

fun tryMoves :: "FoodsMap \<Rightarrow> MacroTarget \<Rightarrow> DayFoodEntry list \<Rightarrow> (nat \<times> real) list
    \<Rightarrow> real \<times> int \<times> real \<Rightarrow> (real \<times> int \<times> real) option" where
  "tryMoves foodsMap target entries [] best = Some best"
| "tryMoves foodsMap target entries ((idx, delta) # ms) (bestScore, bestIdx, bestDelta) =
     (if grams (entries ! idx) + delta < 0
      then tryMoves foodsMap target entries ms (bestScore, bestIdx, bestDelta)
      else (case computeTotals (trial entries idx delta) foodsMap of
              None \<Rightarrow> None
            | Some totals \<Rightarrow>
                (let s = score target totals
                 in if s < bestScore - 1 / 1000000000
                    then tryMoves foodsMap target entries ms (s, int idx, delta)
                    else tryMoves foodsMap target entries ms (bestScore, bestIdx, bestDelta))))"

text \<open>One pass of the outer loop decides between \<open>break\<close> and a move to apply.\<close>

datatype Step = Break | Move nat real

definition iteration :: "FoodsMap \<Rightarrow> MacroTarget \<Rightarrow> DayFoodEntry list \<Rightarrow> Step option" where
  "iteration foodsMap target entries =
     (case computeTotals entries foodsMap of
        None \<Rightarrow> None
      | Some baseTotals \<Rightarrow>
          (let baseScore = score target baseTotals
           in if baseScore < 1 then Some Break
              else (case tryMoves foodsMap target entries (moves entries) (baseScore, - 1, 0) of
                      None \<Rightarrow> None
                    | Some (bestScore, bestIdx, bestDelta) \<Rightarrow>
                        if bestIdx < 0 then Some Break else Some (Move (nat bestIdx) bestDelta))))"

text \<open>\<open>entries[bestIdx].grams = Math.max(0, entries[bestIdx].grams + bestDelta)\<close>\<close>

definition applyMove :: "DayFoodEntry list \<Rightarrow> nat \<Rightarrow> real \<Rightarrow> DayFoodEntry list" where
  "applyMove entries idx delta =
     entries[idx := (entries ! idx)\<lparr>grams := max 0 (grams (entries ! idx) + delta)\<rparr>]"

text \<open>
  \<open>for (let i = 0; i < 1500; i += 1)\<close>: the first argument is the number of passes
  left.
\<close>

fun search :: "nat \<Rightarrow> FoodsMap \<Rightarrow> MacroTarget \<Rightarrow> DayFoodEntry list \<Rightarrow> DayFoodEntry list option" where
  "search 0 foodsMap target entries = Some entries"
| "search (Suc n) foodsMap target entries =
     (case iteration foodsMap target entries of
        None \<Rightarrow> None
      | Some Break \<Rightarrow> Some entries
      | Some (Move idx delta) \<Rightarrow> search n foodsMap target (applyMove entries idx delta))"

subsection \<open>greedyGenerate\<close>

text \<open>
  \<open>Math.max(0, e.grams || 0)\<close>: on a real number \<open>e.grams || 0\<close> is \<open>e.grams\<close>.
\<close>

definition clampEntries :: "DayFoodEntry list \<Rightarrow> DayFoodEntry list" where
  "clampEntries selected = map (\<lambda>e. e\<lparr>grams := max 0 (grams e)\<rparr>) selected"

definition roundEntries :: "DayFoodEntry list \<Rightarrow> DayFoodEntry list" where
  "roundEntries entries = map (\<lambda>e. e\<lparr>grams := round2 (grams e)\<rparr>) entries"

definition greedyGenerate :: "DayFoodEntry list \<Rightarrow> FoodsMap \<Rightarrow> MacroTarget
    \<Rightarrow> DayFoodEntry list option" where
  "greedyGenerate selected foodsMap target =
     (let entries = clampEntries selected;
          proteins = groupOf foodsMap Protein entries;
          carbs = groupOf foodsMap Carb entries;
          fats = groupOf foodsMap Fat entries
      in case assign foodsMap proteins MacroP (g_p target * (7 / 10)) entries of
           None \<Rightarrow> None
         | Some e1 \<Rightarrow>
             (case assign foodsMap carbs MacroC (g_c target * (7 / 10)) e1 of
                None \<Rightarrow> None
              | Some e2 \<Rightarrow>
                  (case assign foodsMap fats MacroF (g_f target * (7 / 10)) e2 of
                     None \<Rightarrow> None
                   | Some e3 \<Rightarrow> map_option roundEntries (search 1500 foodsMap target e3))))"

section \<open>Vocabulary of the properties\<close>

text \<open>
  Every catalog food that an entry refers to has at least one variant (the data model
  asks for one or more variants per food).
\<close>

definition variantsPresent :: "FoodsMap \<Rightarrow> DayFoodEntry list \<Rightarrow> bool" where
  "variantsPresent foodsMap entries =
     list_all (\<lambda>e. case foodsMap (foodId e) of None \<Rightarrow> True | Some food \<Rightarrow> variants food \<noteq> []) entries"

text \<open>The deviation score of an entry list, when its totals exist.\<close>

definition scoreOf :: "FoodsMap \<Rightarrow> MacroTarget \<Rightarrow> DayFoodEntry list \<Rightarrow> real option" where
  "scoreOf foodsMap target entries = map_option (score target) (computeTotals entries foodsMap)"

text \<open>
  What one resolved entry adds to a macro: density times \<open>max(0, grams) / 100\<close>, and
  nothing when the food is not in the catalog.
\<close>

definition contribution :: "FoodsMap \<Rightarrow> (FoodVariant \<Rightarrow> real) \<Rightarrow> DayFoodEntry \<Rightarrow> real" where
  "contribution foodsMap dens e =
     (case foodsMap (foodId e) of
        None \<Rightarrow> 0
      | Some food \<Rightarrow>
          (case getVariant food (basis e) of
             None \<Rightarrow> 0
           | Some v \<Rightarrow> dens v * (max 0 (grams e) / 100)))"

definition kcalOf :: "FoodVariant \<Rightarrow> real" where
  "kcalOf v = (case v_kcal v of None \<Rightarrow> 0 | Some k \<Rightarrow> k)"

section \<open>Concrete inputs\<close>

text \<open>The default profile of the application, with a placement of three high days.\<close>

definition scenarioC :: PlannerProfile where
  "scenarioC = \<lparr> sex = ''Female'', weightKg = 70, bodyType = Endo, proteinPerKg = 12 / 10,
      ectoFatPerKg = 1, cycleDays = 5, nHigh = 2, nMed = 2, nLow = 1,
      carbShares = (\<lambda>k. case k of High \<Rightarrow> 1 / 2 | Medium \<Rightarrow> 35 / 100 | Low \<Rightarrow> 15 / 100),
      fatShares = (\<lambda>k. case k of High \<Rightarrow> 15 / 100 | Medium \<Rightarrow> 35 / 100 | Low \<Rightarrow> 1 / 2),
      dayPlacement = [High, Low, High, Medium, High] \<rparr>"

text \<open>A profile with a negative cycle length, outside the range the application stores.\<close>

definition negativeCycle :: PlannerProfile where
  "negativeCycle = scenarioC \<lparr> cycleDays := - 1, nHigh := - 1, nMed := 0, nLow := 0,
      dayPlacement := [Low, Low, Low] \<rparr>"

text \<open>The same profile after \<open>-1\<close> is entered as the number of high days.\<close>

definition negativeCount :: PlannerProfile where
  "negativeCount = scenarioC\<lparr>nHigh := - 1\<rparr>"

text \<open>A protein food with 100 g of protein per 100 g, and the same food without variants.\<close>

definition pureProtein :: FoodItem where
  "pureProtein = \<lparr> food_id = ''x'', name_en = ''x'', name_zh = ''x'', category = Protein,
      emoji = [], variants = [\<lparr> v_basis = Raw, v_kcal = None, v_p = 100, v_c = 0, v_f = 0 \<rparr>] \<rparr>"

definition noVariants :: FoodItem where
  "noVariants = pureProtein\<lparr>variants := []\<rparr>"

definition entryX :: "real \<Rightarrow> DayFoodEntry" where
  "entryX g = \<lparr> foodId = ''x'', basis = Raw, grams = g \<rparr>"

definition zeroTarget :: MacroTarget where
  "zeroTarget = \<lparr> g_p = 0, g_c = 0, g_f = 0 \<rparr>"

definition tenProtein :: MacroTarget where
  "tenProtein = \<lparr> g_p = 10, g_c = 0, g_f = 0 \<rparr>"

text \<open>Catalogs holding the one food, and an entry list for the totals.\<close>

definition catalogX :: FoodsMap where
  "catalogX = [''x'' \<mapsto> pureProtein]"

definition catalogNoVariants :: FoodsMap where
  "catalogNoVariants = [''x'' \<mapsto> noVariants]"

definition demoEntries :: "DayFoodEntry list" where
  "demoEntries = [entryX (4 / 1000), \<lparr> foodId = ''gone'', basis = Raw, grams = 50 \<rparr>,
                  (entryX (4 / 1000))\<lparr>basis := Cooked\<rparr>, entryX (- 7)]"

section \<open>Properties of the cycle arithmetic\<close>

subsection \<open>Auxiliary facts\<close>

lemma padLow_replicate: "padLow out cd = out @ replicate (nat (cd - int (length out))) Low"
proof (induction out cd rule: padLow.induct)
  case (1 out cd)
  show ?case
  proof (cases "int (length out) < cd")
    case True
    then have "nat (cd - int (length out)) = Suc (nat (cd - int (length (out @ [Low]))))"
      by simp
    with True 1 show ?thesis
      by (subst padLow.simps) (simp add: replicate_app_Cons_same)
  next
    case False
    then show ?thesis by (subst padLow.simps) simp
  qed
qed

lemma length_resized: "0 \<le> cycleDays p \<Longrightarrow> length (resized p) = nat (cycleDays p)"
  by (simp add: resized_def padLow_replicate slice0_def)

lemma countDays_total: "countDays xs High + countDays xs Medium + countDays xs Low = length xs"
proof (induction xs)
  case Nil
  show ?case by (simp add: countDays_def)
next
  case (Cons x xs)
  then show ?case by (cases x) (simp_all add: countDays_def)
qed

lemma countDays_update:
  "i < length xs \<Longrightarrow>
   int (countDays (xs[i := t]) k) =
     int (countDays xs k) - (if xs ! i = k then 1 else 0) + (if t = k then 1 else 0)"
proof (induction xs arbitrary: i)
  case Nil
  then show ?case by simp
next
  case (Cons x xs)
  show ?case
  proof (cases i)
    case 0
    then show ?thesis by (simp add: countDays_def)
  next
    case (Suc j)
    with Cons.prems have "j < length xs" by simp
    from Cons.IH [OF this] Suc show ?thesis by (auto simp: countDays_def)
  qed
qed

lemma find_lacks_None: "find (\<lambda>k. lacks k > (0::int)) [High, Medium, Low] = None \<longleftrightarrow> (\<forall>k. lacks k \<le> 0)"
proof
  assume "find (\<lambda>k. lacks k > 0) [High, Medium, Low] = None"
  then have "lacks High \<le> 0" "lacks Medium \<le> 0" "lacks Low \<le> 0"
    by (simp_all split: if_splits)
  then show "\<forall>k. lacks k \<le> 0"
    by (metis DayType.exhaust)
next
  assume "\<forall>k. lacks k \<le> 0"
  then show "find (\<lambda>k. lacks k > 0) [High, Medium, Low] = None"
    by (simp add: not_less [symmetric])
qed

lemma find_lacks_Some: "find (\<lambda>k. lacks k > (0::int)) [High, Medium, Low] = Some t \<Longrightarrow> lacks t > 0"
  by (simp split: if_splits)

lemma scan_length: "length (fst (scan n out ex la)) = length out"
  by (induction n arbitrary: out ex la) (simp_all add: Let_def split: option.splits)

lemma scan_frame: "n \<le> j \<Longrightarrow> fst (scan n out ex la) ! j = out ! j"
  by (induction n arbitrary: out ex la) (simp_all add: Let_def split: option.splits)

lemma scan_Suc_cases [consumes 0, case_names skip move]:
  obtains
    (skip) "scan (Suc i) out ex la = scan i out ex la"
           "ex (out ! i) \<le> 0 \<or> (\<forall>k. la k \<le> 0)"
  | (move) t where "0 < ex (out ! i)" "0 < la t"
           "scan (Suc i) out ex la =
              scan i (out[i := t]) (ex(out ! i := ex (out ! i) - 1)) (la(t := la t - 1))"
proof (cases "ex (out ! i) \<le> 0")
  case True
  then show ?thesis using skip by simp
next
  case False
  show ?thesis
  proof (cases "find (\<lambda>k. la k > 0) [High, Medium, Low]")
    case None
    with False skip show ?thesis
      using find_lacks_None [of la] by simp
  next
    case (Some t)
    with False have c: "scan (Suc i) out ex la =
        scan i (out[i := t]) (ex(out ! i := ex (out ! i) - 1)) (la(t := la t - 1))"
      by (simp add: Let_def)
    have b: "0 < la t" by (rule find_lacks_Some [OF Some])
    have a: "0 < ex (out ! i)" using False by simp
    from a b c show ?thesis by (rule move)
  qed
qed


lemma scan_count:
  "n \<le> length out \<Longrightarrow> scan n out ex la = (res, exF, laF) \<Longrightarrow>
   int (countDays res k) = int (countDays out k) - (ex k - exF k) + (la k - laF k)"
proof (induction n arbitrary: out ex la)
  case 0
  then show ?case by simp
next
  case (Suc i)
  from Suc.prems have i: "i < length out" by simp
  show ?case
  proof (cases rule: scan_Suc_cases [of i out ex la])
    case skip
    with Suc.prems Suc.IH [of out ex la] show ?thesis by simp
  next
    case (move t)
    with Suc.prems have
      "scan i (out[i := t]) (ex(out ! i := ex (out ! i) - 1)) (la(t := la t - 1)) = (res, exF, laF)"
      by simp
    from Suc.IH [OF _ this] i
    have "int (countDays res k) =
            int (countDays (out[i := t]) k)
            - ((ex(out ! i := ex (out ! i) - 1)) k - exF k)
            + ((la(t := la t - 1)) k - laF k)"
      by simp
    then show ?thesis
      by (simp add: countDays_update [OF i])
  qed
qed

lemma countDays_snoc: "countDays (xs @ [x]) k = countDays xs k + (if x = k then 1 else 0)"
  by (simp add: countDays_def)

lemma scan_exhaust:
  assumes "n \<le> length out"
    and "\<forall>k. 0 \<le> ex k \<and> 0 \<le> la k"
    and "\<forall>k. \<not> (0 < ex k \<and> 0 < la k)"
    and "\<forall>k. ex k \<le> int (countDays (take n out) k)"
    and "ex High + ex Medium + ex Low = la High + la Medium + la Low"
    and "scan n out ex la = (res, exF, laF)"
  shows "exF k = 0 \<and> laF k = 0"
  using assms
proof (induction n arbitrary: out ex la)
  case 0
  from 0(4) have "\<forall>k. ex k \<le> 0" by (simp add: countDays_def)
  with 0(2) have ex0: "\<forall>k. ex k = 0" by (simp add: order_antisym)
  with 0(5) have "la High + la Medium + la Low = 0" by simp
  moreover from 0(2) have "0 \<le> la High" "0 \<le> la Medium" "0 \<le> la Low"
    by simp_all
  ultimately have "la High = 0" "la Medium = 0" "la Low = 0"
    by linarith+
  then have "la k = 0" by (cases k) simp_all
  moreover from ex0 have "ex k = 0" by simp
  moreover from 0(6) have "exF = ex" "laF = la" by simp_all
  ultimately show ?case by simp
next
  case (Suc i)
  from Suc.prems(1) have i: "i < length out" by simp
  have tk: "take (Suc i) out = take i out @ [out ! i]"
    using i by (simp add: take_Suc_conv_app_nth)
  show ?case
  proof (cases rule: scan_Suc_cases [of i out ex la])
    case skip
    have dpos: "ex (out ! i) \<le> 0"
    proof (rule ccontr)
      assume "\<not> ex (out ! i) \<le> 0"
      with skip(2) have la0: "\<forall>k. la k \<le> 0" by simp
      then have "la High \<le> 0" "la Medium \<le> 0" "la Low \<le> 0"
        by simp_all
      with Suc.prems(5) have "ex High + ex Medium + ex Low \<le> 0"
        by linarith
      moreover from Suc.prems(2) have "0 \<le> ex High" "0 \<le> ex Medium" "0 \<le> ex Low"
        by simp_all
      ultimately have "ex High = 0" "ex Medium = 0" "ex Low = 0"
        by linarith+
      then have "ex (out ! i) = 0" by (cases "out ! i") simp_all
      with \<open>\<not> ex (out ! i) \<le> 0\<close> show False by simp
    qed
    have "\<forall>k. ex k \<le> int (countDays (take i out) k)"
    proof
      fix k
      show "ex k \<le> int (countDays (take i out) k)"
        using Suc.prems(4) dpos
        by (cases "out ! i = k") (auto simp: tk countDays_snoc dest: spec [of _ k])
    qed
    with Suc.IH [of out ex la] Suc.prems skip i show ?thesis by simp
  next
    case (move t)
    let ?d = "out ! i"
    let ?ex = "ex(?d := ex ?d - 1)" and ?la = "la(t := la t - 1)"
    from move Suc.prems(3) have td: "t \<noteq> ?d" by auto
    have 1: "i \<le> length (out[i := t])" using i by simp
    have 2: "\<forall>k. 0 \<le> ?ex k \<and> 0 \<le> ?la k"
      using Suc.prems(2) move(1,2) by auto
    have 3: "\<forall>k. \<not> (0 < ?ex k \<and> 0 < ?la k)"
      using Suc.prems(3) move(1,2) by auto
    have 4: "\<forall>k. ?ex k \<le> int (countDays (take i (out[i := t])) k)"
    proof
      fix k
      show "?ex k \<le> int (countDays (take i (out[i := t])) k)"
        using Suc.prems(4)
        by (cases "?d = k") (auto simp: tk countDays_snoc dest: spec [of _ k])
    qed
    have 5: "?ex High + ?ex Medium + ?ex Low = ?la High + ?la Medium + ?la Low"
      using Suc.prems(5) td by (cases ?d; cases t) simp_all
    have 6: "scan i (out[i := t]) ?ex ?la = (res, exF, laF)"
      using move(3) Suc.prems(6) by simp
    from Suc.IH [OF 1 2 3 4 5 6] show ?thesis .
  qed
qed

lemma requiredOf_simps:
  "requiredOf p High = nHigh p" "requiredOf p Medium = nMed p" "requiredOf p Low = nLow p"
  by (simp_all add: requiredOf_def)

lemma extras_minus_lacks: "extrasOf out req k - lacksOf out req k = int (countDays out k) - req k"
  by (simp add: extrasOf_def lacksOf_def)

lemma extras_lacks_disjoint: "\<not> (0 < extrasOf out req k \<and> 0 < lacksOf out req k)"
  by (simp add: extrasOf_def lacksOf_def)

lemma extras_lacks_nonneg: "0 \<le> extrasOf out req k \<and> 0 \<le> lacksOf out req k"
  by (simp add: extrasOf_def lacksOf_def)


text \<open>Positions of an exhausted category are left alone.\<close>

lemma scan_unchanged:
  "n \<le> length out \<Longrightarrow> ex k \<le> 0 \<or> (\<forall>j. la j \<le> 0) \<Longrightarrow> i < n \<Longrightarrow> out ! i = k \<Longrightarrow>
   fst (scan n out ex la) ! i = k"
proof (induction n arbitrary: out ex la)
  case 0
  then show ?case by simp
next
  case (Suc m)
  from Suc.prems(1) have m: "m < length out" by simp
  show ?case
  proof (cases rule: scan_Suc_cases [of m out ex la])
    case skip
    show ?thesis
    proof (cases "i = m")
      case True
      with skip(1) Suc.prems(4) show ?thesis by (simp add: scan_frame)
    next
      case False
      with Suc.prems have "i < m" by simp
      with Suc.IH [of out ex la] Suc.prems m skip(1) show ?thesis by simp
    qed
  next
    case (move t)
    from move(2) have "\<not> (\<forall>j. la j \<le> 0)"
      by (auto simp: not_le intro: exI [of _ t])
    with Suc.prems(2) have exk: "ex k \<le> 0" by simp
    with move(1) Suc.prems(4) have ne: "i \<noteq> m" by auto
    with Suc.prems have im: "i < m" by simp
    from exk move(1) have "(ex(out ! m := ex (out ! m) - 1)) k \<le> 0" by auto
    then have "(ex(out ! m := ex (out ! m) - 1)) k \<le> 0 \<or> (\<forall>j. (la(t := la t - 1)) j \<le> 0)" ..
    moreover have "out[m := t] ! i = k" using im Suc.prems(4) by simp
    moreover have "m \<le> length (out[m := t])" using m by simp
    ultimately have "fst (scan m (out[m := t]) (ex(out ! m := ex (out ! m) - 1)) (la(t := la t - 1))) ! i = k"
      using im by (intro Suc.IH) auto
    with move(3) show ?thesis by simp
  qed
qed

text \<open>Within one category the repair consumes positions from the tail.\<close>

lemma scan_tail_first:
  "n \<le> length out \<Longrightarrow> \<forall>k. \<not> (0 < ex k \<and> 0 < la k) \<Longrightarrow>
   i < j \<Longrightarrow> j < n \<Longrightarrow> out ! j = out ! i \<Longrightarrow>
   fst (scan n out ex la) ! i \<noteq> out ! i \<Longrightarrow> fst (scan n out ex la) ! j \<noteq> out ! j"
proof (induction n arbitrary: out ex la)
  case 0
  then show ?case by simp
next
  case (Suc m)
  from Suc.prems(1) have m: "m < length out" by simp
  show ?case
  proof (cases rule: scan_Suc_cases [of m out ex la])
    case skip
    show ?thesis
    proof (cases "j = m")
      case True
      with Suc.prems(3) have "i < m" by simp
      from scan_unchanged [of m out ex "out ! m" la i] skip(2) this m True Suc.prems(5)
      have "fst (scan m out ex la) ! i = out ! i" by simp
      with skip(1) Suc.prems(6) show ?thesis by simp
    next
      case False
      with Suc.prems(4) have "j < m" by simp
      with Suc.IH [of out ex la] Suc.prems m skip(1) show ?thesis by simp
    qed
  next
    case (move t)
    let ?out = "out[m := t]"
    let ?ex = "ex(out ! m := ex (out ! m) - 1)" and ?la = "la(t := la t - 1)"
    have dis: "\<forall>k. \<not> (0 < ?ex k \<and> 0 < ?la k)"
      using Suc.prems(2) move(1,2) by auto
    from move(1,2) Suc.prems(2) have td: "t \<noteq> out ! m" by auto
    show ?thesis
    proof (cases "j = m")
      case True
      have "fst (scan m ?out ?ex ?la) ! m = ?out ! m" by (simp add: scan_frame)
      with move(3) m td True show ?thesis by simp
    next
      case False
      with Suc.prems(4) have jm: "j < m" by simp
      with Suc.prems(3) have im: "i < m" by simp
      have "fst (scan m ?out ?ex ?la) ! j \<noteq> ?out ! j"
      proof (rule Suc.IH [OF _ dis Suc.prems(3) jm])
        show "m \<le> length ?out" using m by simp
        show "?out ! j = ?out ! i" using jm im Suc.prems(5) by simp
        show "fst (scan m ?out ?ex ?la) ! i \<noteq> ?out ! i"
          using Suc.prems(6) move(3) im by simp
      qed
      with move(3) jm show ?thesis by simp
    qed
  qed
qed


lemma resized_nonneg:
  "0 \<le> cycleDays p \<Longrightarrow>
   resized p = take (nat (cycleDays p)) (dayPlacement p)
               @ replicate (nat (cycleDays p) - length (dayPlacement p)) Low"
  by (simp add: resized_def slice0_def padLow_replicate min_def nat_diff_distrib')

lemma scan_idle: "\<forall>k. ex k \<le> 0 \<Longrightarrow> scan n out ex la = (out, ex, la)"
  by (induction n) simp_all

lemma scan_skip_tail:
  "i < n \<Longrightarrow> \<forall>j. i < j \<and> j < n \<longrightarrow> ex (out ! j) \<le> 0 \<Longrightarrow>
   scan n out ex la = scan (Suc i) out ex la"
proof (induction n)
  case 0
  then show ?case by simp
next
  case (Suc m)
  show ?case
  proof (cases "i = m")
    case True
    then show ?thesis by simp
  next
    case False
    with Suc.prems have im: "i < m" by simp
    with Suc.prems(2) have "ex (out ! m) \<le> 0" by simp
    then have "scan (Suc m) out ex la = scan m out ex la" by simp
    also have "\<dots> = scan (Suc i) out ex la"
      using Suc.prems(2) by (intro Suc.IH [OF im]) simp
    finally show ?thesis .
  qed
qed

lemma last_occurrence:
  "x \<in> set xs \<Longrightarrow> \<exists>i<length xs. xs ! i = x \<and> (\<forall>j. i < j \<and> j < length xs \<longrightarrow> xs ! j \<noteq> x)"
proof -
  assume "x \<in> set xs"
  then obtain ys zs where xs: "xs = ys @ x # zs" and nin: "x \<notin> set zs"
    by (auto dest: split_list_last)
  have "xs ! length ys = x" by (simp add: xs)
  moreover have "length ys < length xs" by (simp add: xs)
  moreover have "xs ! j \<noteq> x" if "length ys < j" "j < length xs" for j
  proof -
    from that have "xs ! j = zs ! (j - Suc (length ys))" and "j - Suc (length ys) < length zs"
      by (auto simp: xs nth_append nth_Cons')
    with nin show ?thesis by (metis nth_mem)
  qed
  ultimately show ?thesis by blast
qed

lemma scenario_repair:
  assumes len: "length (dayPlacement p) = 5" and cd: "cycleDays p = 5"
    and cH: "countDays (dayPlacement p) High = 3"
    and cM: "countDays (dayPlacement p) Medium = 1"
    and cL: "countDays (dayPlacement p) Low = 1"
    and req: "nHigh p = 2" "nMed p = 2" "nLow p = 1"
  shows "\<exists>i<5. dayPlacement p ! i = High
           \<and> (\<forall>j. i < j \<and> j < 5 \<longrightarrow> dayPlacement p ! j \<noteq> High)
           \<and> normalizePlacement p = (dayPlacement p)[i := Medium]"
proof -
  define out where "out = dayPlacement p"
  define ex where "ex = extrasOf out (requiredOf p)"
  define la where "la = lacksOf out (requiredOf p)"
  have rs: "resized p = out"
    using len cd by (simp add: resized_nonneg out_def)
  have exv: "ex High = 1" "ex Medium = 0" "ex Low = 0"
    using cH cM cL req by (simp_all add: ex_def extrasOf_def out_def requiredOf_simps)
  have lav: "la High = 0" "la Medium = 1" "la Low = 0"
    using cH cM cL req by (simp_all add: la_def lacksOf_def out_def requiredOf_simps)
  have "High \<in> set out"
  proof (rule ccontr)
    assume "High \<notin> set out"
    then have "filter (\<lambda>d. d = High) out = []" by (auto simp: filter_empty_conv)
    with cH show False by (simp add: countDays_def out_def)
  qed
  from last_occurrence [OF this] obtain i where
    i: "i < length out" "out ! i = High" "\<forall>j. i < j \<and> j < length out \<longrightarrow> out ! j \<noteq> High"
    by blast
  have skip: "\<forall>j. i < j \<and> j < length out \<longrightarrow> ex (out ! j) \<le> 0"
  proof (intro allI impI)
    fix j assume "i < j \<and> j < length out"
    with i(3) have "out ! j \<noteq> High" by simp
    then show "ex (out ! j) \<le> 0" using exv by (cases "out ! j") simp_all
  qed
  have "scan (length out) out ex la = scan (Suc i) out ex la"
    by (rule scan_skip_tail [OF i(1) skip])
  also have "\<dots> = scan i (out[i := Medium]) (ex(High := ex High - 1)) (la(Medium := la Medium - 1))"
    using i(2) exv lav by (simp add: Let_def)
  also have "\<dots> = (out[i := Medium], ex(High := ex High - 1), la(Medium := la Medium - 1))"
  proof (rule scan_idle, rule allI)
    fix k show "(ex(High := ex High - 1)) k \<le> 0" using exv by (cases k) simp_all
  qed
  finally have "normalizePlacement p = out[i := Medium]"
    by (simp add: normalizePlacement_def rs ex_def la_def Let_def)
  with i len show ?thesis by (auto simp: out_def)
qed


lemma scenarioC_simps:
  "cycleDays scenarioC = 5" "nHigh scenarioC = 2" "nMed scenarioC = 2" "nLow scenarioC = 1"
  "dayPlacement scenarioC = [High, Low, High, Medium, High]"
  by (simp_all add: scenarioC_def)

lemma scenarioC_value: "normalizePlacement scenarioC = [High, Low, High, Medium, Medium]"
  by (simp add: normalizePlacement_def scenarioC_def resized_def slice0_def padLow_replicate
      requiredOf_def extrasOf_def lacksOf_def countDays_def Let_def)

lemma scenarioC_shares:
  "carbShares scenarioC High = 1 / 2" "carbShares scenarioC Medium = 35 / 100"
  "carbShares scenarioC Low = 15 / 100"
  "fatShares scenarioC High = 15 / 100" "fatShares scenarioC Medium = 35 / 100"
  "fatShares scenarioC Low = 1 / 2"
  "weightKg scenarioC = 70" "bodyType scenarioC = Endo" "proteinPerKg scenarioC = 12 / 10"
  by (simp_all add: scenarioC_def)

lemma negativeCycle_once: "normalizePlacement negativeCycle = [Low, Low]"
  by (simp add: normalizePlacement_def negativeCycle_def scenarioC_def resized_def slice0_def padLow_replicate
      requiredOf_def extrasOf_def lacksOf_def countDays_def Let_def)

lemma negativeCycle_twice: "normalizePlacement (negativeCycle \<lparr> dayPlacement := [Low, Low] \<rparr>) = [Low]"
  by (simp add: normalizePlacement_def negativeCycle_def scenarioC_def resized_def slice0_def padLow_replicate
      requiredOf_def extrasOf_def lacksOf_def countDays_def Let_def)

lemma round2_0: "round2 0 = 0" by (simp add: round2_def)

subsection \<open>calculateCycle\<close>

text \<open>
  Claim C1, as amended. For every profile, \<open>calculateCycle\<close> returns
  \<open>pDay = round2 (weight * proteinRate)\<close>,
  \<open>cTotal = round2 (weight * carbPerWeight * cycleDays)\<close> and
  \<open>fTotal = round2 (weight * fatPerWeight * cycleDays)\<close>, where the endo body type fixes
  the coefficients 2.0 and 0.8 and the ecto body type uses 3.0 and the profile's
  \<open>ectoFatPerKg\<close>. There is one day target per position of the placement, numbered from 1,
  with the category of that position; its protein target is the same rounded
  \<open>weight * proteinRate\<close> on every day, and its carbohydrate and fat targets are the
  rounded \<open>(total * share) / count\<close> of its category when the count is positive, and zero
  when the count is zero or negative. With weight 70, endo, protein rate 1.2 and five
  cycle days the three totals are 84, 700 and 280.
\<close>

theorem calculateCycle_targets:
  "pDay (calculateCycle p) = round2 (weightKg p * proteinPerKg p)
   \<and> cTotal (calculateCycle p) =
       round2 (weightKg p * (if bodyType p = Endo then 2 else 3) * of_int (cycleDays p))
   \<and> fTotal (calculateCycle p) =
       round2 (weightKg p * (if bodyType p = Endo then 8 / 10 else ectoFatPerKg p) * of_int (cycleDays p))
   \<and> length (dayTargets (calculateCycle p)) = length (dayPlacement p)
   \<and> (\<forall>i<length (dayPlacement p).
         day (dayTargets (calculateCycle p) ! i) = i + 1
       \<and> dayType (dayTargets (calculateCycle p) ! i) = dayPlacement p ! i
       \<and> proteinTarget (dayTargets (calculateCycle p) ! i) = round2 (weightKg p * proteinPerKg p)
       \<and> carbTarget (dayTargets (calculateCycle p) ! i) =
           (if 0 < requiredOf p (dayPlacement p ! i)
            then round2 (weightKg p * (if bodyType p = Endo then 2 else 3) * of_int (cycleDays p)
                         * carbShares p (dayPlacement p ! i) / of_int (requiredOf p (dayPlacement p ! i)))
            else 0)
       \<and> fatTarget (dayTargets (calculateCycle p) ! i) =
           (if 0 < requiredOf p (dayPlacement p ! i)
            then round2 (weightKg p * (if bodyType p = Endo then 8 / 10 else ectoFatPerKg p)
                         * of_int (cycleDays p)
                         * fatShares p (dayPlacement p ! i) / of_int (requiredOf p (dayPlacement p ! i)))
            else 0))
   \<and> (weightKg p = 70 \<and> bodyType p = Endo \<and> proteinPerKg p = 12 / 10 \<and> cycleDays p = 5 \<longrightarrow>
        pDay (calculateCycle p) = 84 \<and> cTotal (calculateCycle p) = 700
        \<and> fTotal (calculateCycle p) = 280)"
proof -
  have totals:
    "pDay (calculateCycle p) = round2 (weightKg p * proteinPerKg p)"
    "cTotal (calculateCycle p) =
       round2 (weightKg p * (if bodyType p = Endo then 2 else 3) * of_int (cycleDays p))"
    "fTotal (calculateCycle p) =
       round2 (weightKg p * (if bodyType p = Endo then 8 / 10 else ectoFatPerKg p) * of_int (cycleDays p))"
    by (simp_all add: calculateCycle_def Let_def carbPerKg_def fatPerKg_def)
  have days: "length (dayTargets (calculateCycle p)) = length (dayPlacement p)"
    by (simp add: calculateCycle_def Let_def)
  have each: "day (dayTargets (calculateCycle p) ! i) = i + 1
       \<and> dayType (dayTargets (calculateCycle p) ! i) = dayPlacement p ! i
       \<and> proteinTarget (dayTargets (calculateCycle p) ! i) = round2 (weightKg p * proteinPerKg p)
       \<and> carbTarget (dayTargets (calculateCycle p) ! i) =
           (if 0 < requiredOf p (dayPlacement p ! i)
            then round2 (weightKg p * (if bodyType p = Endo then 2 else 3) * of_int (cycleDays p)
                         * carbShares p (dayPlacement p ! i) / of_int (requiredOf p (dayPlacement p ! i)))
            else 0)
       \<and> fatTarget (dayTargets (calculateCycle p) ! i) =
           (if 0 < requiredOf p (dayPlacement p ! i)
            then round2 (weightKg p * (if bodyType p = Endo then 8 / 10 else ectoFatPerKg p)
                         * of_int (cycleDays p)
                         * fatShares p (dayPlacement p ! i) / of_int (requiredOf p (dayPlacement p ! i)))
            else 0)"
    if "i < length (dayPlacement p)" for i
    using that
    by (simp add: calculateCycle_def Let_def carbPerKg_def fatPerKg_def perType_def
        nth_enumerate_eq round2_0)
  have scenarioA: "pDay (calculateCycle p) = 84 \<and> cTotal (calculateCycle p) = 700
        \<and> fTotal (calculateCycle p) = 280"
    if h: "weightKg p = 70" "bodyType p = Endo" "proteinPerKg p = 12 / 10" "cycleDays p = 5"
    by (simp add: totals h round2_def)
  from totals days each scenarioA show ?thesis by blast
qed

theorem calculateCycle_targets_witness:
  "pDay (calculateCycle scenarioC) = 84 \<and> cTotal (calculateCycle scenarioC) = 700
   \<and> fTotal (calculateCycle scenarioC) = 280
   \<and> map carbTarget (dayTargets (calculateCycle scenarioC)) = [175, 105, 175, 1225 / 10, 175]"
  using calculateCycle_targets [of scenarioC]
  by (simp add: scenarioC_simps scenarioC_shares requiredOf_simps round2_def list_eq_iff_nth_eq
       less_Suc_eq all_conj_distrib)

text \<open>
  Claim C1 as stated gives every category with a non-zero count the value
  \<open>(total * share) / count\<close>. The guard of the source is \<open>count > 0\<close>: with
  \<open>nHigh = -1\<close>, a carbohydrate total of 700 and a share of one half, the high day gets
  the target 0 and not -350.
\<close>

theorem calculateCycle_negative_count:
  "nHigh negativeCount \<noteq> 0
   \<and> cTotal (calculateCycle negativeCount) = 700
   \<and> carbShares negativeCount High = 1 / 2
   \<and> dayType (dayTargets (calculateCycle negativeCount) ! 0) = High
   \<and> carbTarget (dayTargets (calculateCycle negativeCount) ! 0) = 0
   \<and> round2 ((700 * carbShares negativeCount High) / of_int (nHigh negativeCount)) = - 350
   \<and> carbTarget (dayTargets (calculateCycle negativeCount) ! 0)
       \<noteq> round2 ((700 * carbShares negativeCount High) / of_int (nHigh negativeCount))"
  by (simp add: negativeCount_def scenarioC_def calculateCycle_def Let_def carbPerKg_def
      fatPerKg_def perType_def requiredOf_def round2_def enumerate_eq_zip)

subsection \<open>normalizePlacement\<close>

text \<open>
  Claim C2. For every profile whose required counts are non-negative and sum to
  \<open>cycleDays\<close>, whatever the stored placement is, \<open>normalizePlacement\<close> returns a
  sequence of length \<open>cycleDays\<close> that holds exactly \<open>nHigh\<close> high, \<open>nMed\<close> medium and
  \<open>nLow\<close> low days.
\<close>

theorem normalizePlacement_counts:
  assumes "0 \<le> nHigh p" and "0 \<le> nMed p" and "0 \<le> nLow p"
    and "nHigh p + nMed p + nLow p = cycleDays p"
  shows "length (normalizePlacement p) = nat (cycleDays p)
       \<and> int (countDays (normalizePlacement p) High) = nHigh p
       \<and> int (countDays (normalizePlacement p) Medium) = nMed p
       \<and> int (countDays (normalizePlacement p) Low) = nLow p"
proof -
  define out where "out = resized p"
  define ex where "ex = extrasOf out (requiredOf p)"
  define la where "la = lacksOf out (requiredOf p)"
  obtain res exF laF where sc: "scan (length out) out ex la = (res, exF, laF)"
    by (cases "scan (length out) out ex la") auto
  have np: "normalizePlacement p = res"
    using sc by (simp add: normalizePlacement_def out_def ex_def la_def Let_def)
  from assms have cd: "0 \<le> cycleDays p" by simp
  then have len: "length out = nat (cycleDays p)"
    by (simp add: out_def length_resized)
  have req0: "0 \<le> requiredOf p k" for k
    using assms(1-3) by (cases k) (simp_all add: requiredOf_simps)
  have 2: "\<forall>k. 0 \<le> ex k \<and> 0 \<le> la k"
    by (simp add: ex_def la_def extras_lacks_nonneg)
  have 3: "\<forall>k. \<not> (0 < ex k \<and> 0 < la k)"
    using extras_lacks_disjoint [of out "requiredOf p"] by (simp add: ex_def la_def)
  have 4: "\<forall>k. ex k \<le> int (countDays (take (length out) out) k)"
    using req0 by (simp add: ex_def extrasOf_def)
  have diff: "ex k - la k = int (countDays out k) - requiredOf p k" for k
    by (simp add: ex_def la_def extras_minus_lacks)
  have "int (countDays out High) + int (countDays out Medium) + int (countDays out Low)
          = cycleDays p"
    using countDays_total [of out] len cd by linarith
  with diff [of High] diff [of Medium] diff [of Low] assms(4)
  have 5: "ex High + ex Medium + ex Low = la High + la Medium + la Low"
    by (simp add: requiredOf_simps)
  have fin: "exF k = 0 \<and> laF k = 0" for k
    by (rule scan_exhaust [OF order_refl 2 3 4 5 sc])
  have cnt: "int (countDays res k) = requiredOf p k" for k
    using scan_count [OF order_refl sc, of k] fin [of k] diff [of k] by simp
  have "length res = length out"
    using scan_length [of "length out" out ex la] sc by simp
  with len cnt [of High] cnt [of Medium] cnt [of Low] np show ?thesis
    by (simp add: requiredOf_simps)
qed

theorem normalizePlacement_counts_witness:
  "0 \<le> nHigh scenarioC \<and> 0 \<le> nMed scenarioC \<and> 0 \<le> nLow scenarioC
   \<and> nHigh scenarioC + nMed scenarioC + nLow scenarioC = cycleDays scenarioC
   \<and> length (normalizePlacement scenarioC) = 5
   \<and> countDays (normalizePlacement scenarioC) High = 2
   \<and> countDays (normalizePlacement scenarioC) Medium = 2
   \<and> countDays (normalizePlacement scenarioC) Low = 1"
  using normalizePlacement_counts [of scenarioC] by (simp add: scenarioC_simps)

text \<open>
  Claim C8. Write \<open>resized p\<close> for the placement after the resize step: for a
  non-negative \<open>cycleDays\<close> it is the placement cut to \<open>cycleDays\<close> positions or padded
  on the right with \<open>Low\<close> up to that length. The result has the length of
  \<open>resized p\<close>; a position differs from \<open>resized p\<close> only if its category occurs there
  more often than required; and if a position of some category is changed, then every
  later position of that category is changed too (the tail goes first). For a placement
  of length 5 with three high, one medium and one low day against the required counts
  2, 2, 1, the result is the placement with its last high day turned into a medium day,
  and nothing else changed.
\<close>

theorem normalizePlacement_minimal_disruption:
  "(0 \<le> cycleDays p \<longrightarrow>
      resized p = take (nat (cycleDays p)) (dayPlacement p)
                  @ replicate (nat (cycleDays p) - length (dayPlacement p)) Low
      \<and> length (resized p) = nat (cycleDays p))
   \<and> length (normalizePlacement p) = length (resized p)
   \<and> (\<forall>i<length (resized p). normalizePlacement p ! i \<noteq> resized p ! i \<longrightarrow>
         requiredOf p (resized p ! i) < int (countDays (resized p) (resized p ! i)))
   \<and> (\<forall>i j. i < j \<and> j < length (resized p) \<and> resized p ! j = resized p ! i
         \<and> normalizePlacement p ! i \<noteq> resized p ! i \<longrightarrow>
         normalizePlacement p ! j \<noteq> resized p ! j)
   \<and> (length (dayPlacement p) = 5 \<and> cycleDays p = 5
       \<and> countDays (dayPlacement p) High = 3 \<and> countDays (dayPlacement p) Medium = 1
       \<and> countDays (dayPlacement p) Low = 1
       \<and> nHigh p = 2 \<and> nMed p = 2 \<and> nLow p = 1 \<longrightarrow>
       (\<exists>i<5. dayPlacement p ! i = High
           \<and> (\<forall>j. i < j \<and> j < 5 \<longrightarrow> dayPlacement p ! j \<noteq> High)
           \<and> normalizePlacement p = (dayPlacement p)[i := Medium]))"
proof -
  define out where "out = resized p"
  define ex where "ex = extrasOf out (requiredOf p)"
  define la where "la = lacksOf out (requiredOf p)"
  have np: "normalizePlacement p = fst (scan (length out) out ex la)"
    by (simp add: normalizePlacement_def out_def ex_def la_def Let_def)
  have dis: "\<forall>k. \<not> (0 < ex k \<and> 0 < la k)"
    using extras_lacks_disjoint [of out "requiredOf p"] by (simp add: ex_def la_def)
  have a: "0 \<le> cycleDays p \<longrightarrow>
      resized p = take (nat (cycleDays p)) (dayPlacement p)
                  @ replicate (nat (cycleDays p) - length (dayPlacement p)) Low
      \<and> length (resized p) = nat (cycleDays p)"
    using resized_nonneg [of p] length_resized [of p] by simp
  have b: "length (normalizePlacement p) = length out"
    by (simp add: np scan_length)
  have c: "requiredOf p (out ! i) < int (countDays out (out ! i))"
    if "i < length out" "normalizePlacement p ! i \<noteq> out ! i" for i
  proof (rule ccontr)
    assume "\<not> requiredOf p (out ! i) < int (countDays out (out ! i))"
    then have "ex (out ! i) \<le> 0" by (simp add: ex_def extrasOf_def)
    then have "fst (scan (length out) out ex la) ! i = out ! i"
      using that(1) by (intro scan_unchanged) simp_all
    with that(2) np show False by simp
  qed
  have d: "normalizePlacement p ! j \<noteq> out ! j"
    if "i < j" "j < length out" "out ! j = out ! i" "normalizePlacement p ! i \<noteq> out ! i" for i j
    using scan_tail_first [OF order_refl dis that(1,2,3)] that(4) np by simp
  have e: "length (dayPlacement p) = 5 \<and> cycleDays p = 5
       \<and> countDays (dayPlacement p) High = 3 \<and> countDays (dayPlacement p) Medium = 1
       \<and> countDays (dayPlacement p) Low = 1
       \<and> nHigh p = 2 \<and> nMed p = 2 \<and> nLow p = 1 \<longrightarrow>
       (\<exists>i<5. dayPlacement p ! i = High
           \<and> (\<forall>j. i < j \<and> j < 5 \<longrightarrow> dayPlacement p ! j \<noteq> High)
           \<and> normalizePlacement p = (dayPlacement p)[i := Medium])"
    using scenario_repair [of p] by blast
  from a b c d e show ?thesis unfolding out_def by blast
qed

theorem normalizePlacement_minimal_disruption_witness:
  "normalizePlacement scenarioC = (dayPlacement scenarioC)[4 := Medium]
   \<and> (\<exists>i<5. dayPlacement scenarioC ! i = High
           \<and> (\<forall>j. i < j \<and> j < 5 \<longrightarrow> dayPlacement scenarioC ! j \<noteq> High)
           \<and> normalizePlacement scenarioC = (dayPlacement scenarioC)[i := Medium])"
  using normalizePlacement_minimal_disruption [of scenarioC]
  by (simp add: scenarioC_simps scenarioC_value countDays_def)



text \<open>
  The bound on \<open>cycleDays\<close> is what the resize step needs. For a negative end
  \<open>slice(0, -1)\<close> drops the last position on every call, so with the cycle length
  \<open>-1\<close>, which the application never stores, three low days become two, and then one.
\<close>

lemma negative_cycle_length_shrinks:
  "nHigh negativeCycle + nMed negativeCycle + nLow negativeCycle = cycleDays negativeCycle
   \<and> normalizePlacement (negativeCycle\<lparr>dayPlacement := normalizePlacement negativeCycle\<rparr>)
       \<noteq> normalizePlacement negativeCycle"
  unfolding negativeCycle_once negativeCycle_twice by (simp add: negativeCycle_def scenarioC_def)

subsection \<open>validateProfile\<close>

text \<open>
  Claim C7. \<open>validateProfile\<close> returns one message for each of the four checks that
  fails, each check being evaluated whatever the others give: the counts sum to
  \<open>cycleDays\<close>; the carbohydrate shares sum to 1 within \<open>1e-6\<close>; the fat shares sum to
  1 within \<open>1e-6\<close>; the placement holds exactly the required number of days of each
  category. The result is empty exactly when all four hold. The function maps a profile
  to a list of messages, so it has no way to change the profile.
\<close>

theorem validateProfile_checks:
  "length (validateProfile p) =
      (if nHigh p + nMed p + nLow p = cycleDays p then 0 else 1)
    + (if \<bar>carbShares p High + carbShares p Medium + carbShares p Low - 1\<bar> \<le> 1 / 1000000 then 0 else 1)
    + (if \<bar>fatShares p High + fatShares p Medium + fatShares p Low - 1\<bar> \<le> 1 / 1000000 then 0 else 1)
    + (if int (countDays (dayPlacement p) High) = nHigh p
          \<and> int (countDays (dayPlacement p) Medium) = nMed p
          \<and> int (countDays (dayPlacement p) Low) = nLow p then 0 else 1)
   \<and> (validateProfile p = [] \<longleftrightarrow>
        nHigh p + nMed p + nLow p = cycleDays p
      \<and> \<bar>carbShares p High + carbShares p Medium + carbShares p Low - 1\<bar> \<le> 1 / 1000000
      \<and> \<bar>fatShares p High + fatShares p Medium + fatShares p Low - 1\<bar> \<le> 1 / 1000000
      \<and> int (countDays (dayPlacement p) High) = nHigh p
      \<and> int (countDays (dayPlacement p) Medium) = nMed p
      \<and> int (countDays (dayPlacement p) Low) = nLow p)"
  by (simp add: validateProfile_def Let_def not_less)

theorem validateProfile_checks_witness:
  "length (validateProfile scenarioC) = 1
   \<and> validateProfile scenarioC \<noteq> []
   \<and> validateProfile (scenarioC\<lparr>dayPlacement := normalizePlacement scenarioC\<rparr>) = []
   \<and> length (validateProfile (scenarioC\<lparr>nLow := 2, carbShares := (\<lambda>k. 1)\<rparr>)) = 3"
  using validateProfile_checks [of scenarioC]
    validateProfile_checks [of "scenarioC\<lparr>dayPlacement := normalizePlacement scenarioC\<rparr>"]
    validateProfile_checks [of "scenarioC\<lparr>nLow := 2, carbShares := (\<lambda>k. 1)\<rparr>"]
  by (simp add: scenarioC_simps scenarioC_shares scenarioC_value countDays_def)

section \<open>Properties of the totals and the solver\<close>

subsection \<open>Auxiliary facts\<close>

lemma getVariant_None: "getVariant food b = None \<longleftrightarrow> variants food = []"
  by (auto simp: getVariant_def find_None_iff split: option.splits list.splits)

lemma getVariant_fallback:
  "\<forall>v\<in>set (variants food). v_basis v \<noteq> b \<Longrightarrow> variants food = v0 # vs \<Longrightarrow>
   getVariant food b = Some v0"
proof -
  assume a: "\<forall>v\<in>set (variants food). v_basis v \<noteq> b" and b: "variants food = v0 # vs"
  from a have "find (\<lambda>v. v_basis v = b) (variants food) = None"
    by (simp add: find_None_iff)
  with b show ?thesis by (simp add: getVariant_def)
qed

lemma getVariant_match:
  "v \<in> set (variants food) \<Longrightarrow> v_basis v = b \<Longrightarrow>
   \<exists>w. getVariant food b = Some w \<and> w \<in> set (variants food) \<and> v_basis w = b"
proof -
  assume "v \<in> set (variants food)" "v_basis v = b"
  then have "find (\<lambda>v. v_basis v = b) (variants food) \<noteq> None"
    by (auto simp: find_None_iff)
  then obtain w where w: "find (\<lambda>v. v_basis v = b) (variants food) = Some w" by auto
  then have "w \<in> set (variants food) \<and> v_basis w = b"
    by (auto simp: find_Some_iff)
  with w show ?thesis by (simp add: getVariant_def)
qed

lemma getVariant_mem: "getVariant food b = Some v \<Longrightarrow> v \<in> set (variants food)"
  by (auto simp: getVariant_def find_Some_iff split: option.splits list.splits)

lemma variantsPresent_Cons:
  "variantsPresent fm (e # es) \<longleftrightarrow>
     (case fm (foodId e) of None \<Rightarrow> True | Some food \<Rightarrow> variants food \<noteq> []) \<and> variantsPresent fm es"
  by (simp add: variantsPresent_def)

lemma variantsPresent_Nil: "variantsPresent fm []"
  by (simp add: variantsPresent_def)

lemma totalsLoop_present:
  "variantsPresent fm es \<Longrightarrow>
   totalsLoop fm es (k, p, c, f) =
     Some (k + sum_list (map (contribution fm kcalOf) es),
           p + sum_list (map (contribution fm v_p) es),
           c + sum_list (map (contribution fm v_c) es),
           f + sum_list (map (contribution fm v_f) es))"
proof (induction es arbitrary: k p c f)
  case Nil
  show ?case by simp
next
  case (Cons e es)
  from Cons.prems have vp: "variantsPresent fm es"
    by (simp add: variantsPresent_Cons)
  show ?case
  proof (cases "fm (foodId e)")
    case None
    with Cons.IH [OF vp] show ?thesis by (simp add: contribution_def)
  next
    case (Some food)
    with Cons.prems have "variants food \<noteq> []" by (simp add: variantsPresent_Cons)
    then obtain v where v: "getVariant food (basis e) = Some v"
      using getVariant_None [of food "basis e"] by auto
    with Some Cons.IH [OF vp] show ?thesis
      by (simp add: contribution_def kcalOf_def Let_def add.assoc)
  qed
qed

lemma totalsLoop_absent: "\<not> variantsPresent fm es \<Longrightarrow> totalsLoop fm es acc = None"
proof (induction es arbitrary: acc)
  case Nil
  then show ?case by (simp add: variantsPresent_Nil)
next
  case (Cons e es)
  obtain k p c f where acc: "acc = (k, p, c, f)" by (cases acc) auto
  show ?case
  proof (cases "fm (foodId e)")
    case None
    with Cons show ?thesis by (simp add: acc variantsPresent_Cons)
  next
    case (Some food)
    show ?thesis
    proof (cases "variants food = []")
      case True
      with Some show ?thesis by (simp add: acc getVariant_None [THEN iffD2])
    next
      case False
      with Some Cons.prems have "\<not> variantsPresent fm es" by (simp add: variantsPresent_Cons)
      from Cons.IH [OF this] Some show ?thesis
        by (simp add: acc Let_def split: option.splits)
    qed
  qed
qed

lemma computeTotals_eq:
  "computeTotals es fm =
     (if variantsPresent fm es
      then Some \<lparr> t_kcal = round2 (sum_list (map (contribution fm kcalOf) es)),
                  t_p = round2 (sum_list (map (contribution fm v_p) es)),
                  t_c = round2 (sum_list (map (contribution fm v_c) es)),
                  t_f = round2 (sum_list (map (contribution fm v_f) es)) \<rparr>
      else None)"
  by (simp add: computeTotals_def totalsLoop_present totalsLoop_absent)

lemma round2_nonneg: "0 \<le> x \<Longrightarrow> 0 \<le> round2 x"
  by (simp add: round2_def)

lemma contribution_nonneg:
  "(\<And>food v. fm (foodId e) = Some food \<Longrightarrow> v \<in> set (variants food) \<Longrightarrow> 0 \<le> dens v) \<Longrightarrow>
   0 \<le> contribution fm dens e"
  by (auto simp: contribution_def split: option.splits dest: getVariant_mem)

lemma variantsPresent_append:
  "variantsPresent fm (xs @ ys) \<longleftrightarrow> variantsPresent fm xs \<and> variantsPresent fm ys"
  by (simp add: variantsPresent_def)

lemma contribution_absent: "fm (foodId e) = None \<Longrightarrow> contribution fm dens e = 0"
  by (simp add: contribution_def)

lemma computeTotals_absent:
  "fm (foodId e) = None \<Longrightarrow> computeTotals (xs @ e # ys) fm = computeTotals (xs @ ys) fm"
  by (simp add: computeTotals_eq variantsPresent_append variantsPresent_Cons contribution_absent)

lemma computeTotals_nonneg:
  assumes dens: "\<forall>e\<in>set es. \<forall>food v. fm (foodId e) = Some food \<and> v \<in> set (variants food) \<longrightarrow>
                   0 \<le> kcalOf v \<and> 0 \<le> v_p v \<and> 0 \<le> v_c v \<and> 0 \<le> v_f v"
    and res: "computeTotals es fm = Some t"
  shows "0 \<le> t_kcal t \<and> 0 \<le> t_p t \<and> 0 \<le> t_c t \<and> 0 \<le> t_f t"
proof -
  have "0 \<le> sum_list (map (contribution fm d) es)"
    if "\<And>e food v. e \<in> set es \<Longrightarrow> fm (foodId e) = Some food \<Longrightarrow> v \<in> set (variants food) \<Longrightarrow> 0 \<le> d v"
    for d
    by (rule sum_list_nonneg) (auto intro!: contribution_nonneg that)
  from this [of kcalOf] this [of v_p] this [of v_c] this [of v_f] dens
  have "0 \<le> sum_list (map (contribution fm kcalOf) es)"
       "0 \<le> sum_list (map (contribution fm v_p) es)"
       "0 \<le> sum_list (map (contribution fm v_c) es)"
       "0 \<le> sum_list (map (contribution fm v_f) es)"
    by blast+
  with res show ?thesis
    by (auto simp: computeTotals_eq round2_nonneg split: if_splits)
qed


lemma catalogX_simps: "catalogX ''x'' = Some pureProtein" "catalogX ''gone'' = None"
  by (simp_all add: catalogX_def)

lemma pureProtein_simps:
  "variants pureProtein = [\<lparr> v_basis = Raw, v_kcal = None, v_p = 100, v_c = 0, v_f = 0 \<rparr>]"
  "category pureProtein = Protein"
  by (simp_all add: pureProtein_def)

lemma noVariants_simps: "variants noVariants = []" "category noVariants = Protein"
  by (simp_all add: noVariants_def pureProtein_def)

lemma nth_update_grams:
  "j < length es \<Longrightarrow>
   es[i := (es ! i)\<lparr>grams := g\<rparr>] ! j = (if i = j then (es ! j)\<lparr>grams := g\<rparr> else es ! j)"
  by (cases "i < length es") (auto simp: nth_list_update)

lemma update_grams_ids:
  "map foodId (es[i := (es ! i)\<lparr>grams := g\<rparr>]) = map foodId es"
  "map basis (es[i := (es ! i)\<lparr>grams := g\<rparr>]) = map basis es"
  by (rule nth_equalityI; simp add: nth_update_grams)+

lemma update_grams_nonneg:
  "\<forall>j<length es. 0 \<le> grams (es ! j) \<Longrightarrow> (i < length es \<Longrightarrow> 0 \<le> g) \<Longrightarrow>
   \<forall>j<length (es[i := (es ! i)\<lparr>grams := g\<rparr>]). 0 \<le> grams (es[i := (es ! i)\<lparr>grams := g\<rparr>] ! j)"
  by (simp add: nth_update_grams)

lemma variantsPresent_ids:
  "map foodId es' = map foodId es \<Longrightarrow> variantsPresent fm es' = variantsPresent fm es"
proof -
  have "variantsPresent fm xs =
          list_all (\<lambda>k. case fm k of None \<Rightarrow> True | Some food \<Rightarrow> variants food \<noteq> []) (map foodId xs)"
    for xs
    by (simp add: variantsPresent_def list.pred_map comp_def)
  then show "map foodId es' = map foodId es \<Longrightarrow> variantsPresent fm es' = variantsPresent fm es"
    by simp
qed

lemma variantsPresent_nth:
  "variantsPresent fm es \<Longrightarrow> i < length es \<Longrightarrow> fm (foodId (es ! i)) = Some food \<Longrightarrow>
   variants food \<noteq> []"
  by (auto simp: variantsPresent_def list_all_length dest!: spec [of _ i])

lemma fillLoop_ids:
  "map foodId (fillLoop items r es) = map foodId es \<and> map basis (fillLoop items r es) = map basis es"
proof (induction items r es rule: fillLoop.induct)
  case (1 r es)
  show ?case by simp
next
  case (2 i density rest r es)
  show ?case
  proof (cases "r \<le> 0")
    case True
    then show ?thesis by simp
  next
    case False
    with 2 show ?thesis by (simp add: Let_def update_grams_ids)
  qed
qed

lemma fillLoop_nonneg:
  "\<forall>j<length es. 0 \<le> grams (es ! j) \<Longrightarrow>
   \<forall>j<length (fillLoop items r es). 0 \<le> grams (fillLoop items r es ! j)"
proof (induction items r es rule: fillLoop.induct)
  case (1 r es)
  then show ?case by simp
next
  case (2 i density rest r es)
  show ?case
  proof (cases "r \<le> 0")
    case True
    with "2.prems" show ?thesis by simp
  next
    case False
    define g where "g = max 0 (r / density * 100)"
    have "\<forall>j<length (es[i := (es ! i)\<lparr>grams := grams (es ! i) + g\<rparr>]).
            0 \<le> grams (es[i := (es ! i)\<lparr>grams := grams (es ! i) + g\<rparr>] ! j)"
      using "2.prems" by (intro update_grams_nonneg) (auto simp: g_def)
    from "2.IH" [OF False g_def this] False show ?thesis
      by (simp add: Let_def g_def)
  qed
qed

lemma those_map_Some: "\<forall>x\<in>set xs. f x \<noteq> None \<Longrightarrow> \<exists>ys. those (map f xs) = Some ys"
  by (induction xs) auto

lemma groupOf_valid:
  "i \<in> set (groupOf fm cat es) \<Longrightarrow> i < length es \<and> fm (foodId (es ! i)) \<noteq> None"
  by (auto simp: groupOf_def inGroup_def split: option.splits)

lemma assign_ids:
  "assign fm grp m needed es = Some es' \<Longrightarrow>
   map foodId es' = map foodId es \<and> map basis es' = map basis es"
  by (auto simp: assign_def fillLoop_ids split: if_splits option.splits)

lemma assign_nonneg:
  "assign fm grp m needed es = Some es' \<Longrightarrow> \<forall>j<length es. 0 \<le> grams (es ! j) \<Longrightarrow>
   \<forall>j<length es'. 0 \<le> grams (es' ! j)"
  using fillLoop_nonneg by (auto simp: assign_def split: if_splits option.splits)

lemma assign_total:
  assumes vp: "variantsPresent fm es"
    and grp: "\<forall>i\<in>set grp. i < length es \<and> fm (foodId (es ! i)) \<noteq> None"
  shows "\<exists>es'. assign fm grp m needed es = Some es'"
proof -
  have "map_option (\<lambda>d. (i, d)) (densityOf fm m (es ! i)) \<noteq> None" if "i \<in> set grp" for i
  proof -
    from grp that obtain food where f: "i < length es" "fm (foodId (es ! i)) = Some food"
      by auto
    from variantsPresent_nth [OF vp this] have "getVariant food (basis (es ! i)) \<noteq> None"
      by (simp add: getVariant_None)
    with f show ?thesis by (auto simp: densityOf_def)
  qed
  then obtain items where
    "those (map (\<lambda>i. map_option (\<lambda>d. (i, d)) (densityOf fm m (es ! i))) grp) = Some items"
    using those_map_Some [of grp "\<lambda>i. map_option (\<lambda>d. (i, d)) (densityOf fm m (es ! i))"]
    by blast
  then show ?thesis by (simp add: assign_def)
qed

lemma trial_ids:
  "map foodId (trial es idx delta) = map foodId es" "map basis (trial es idx delta) = map basis es"
  by (simp_all add: trial_def update_grams_ids)

lemma applyMove_ids:
  "map foodId (applyMove es idx delta) = map foodId es"
  "map basis (applyMove es idx delta) = map basis es"
  by (simp_all add: applyMove_def update_grams_ids)

lemma applyMove_nonneg:
  "\<forall>j<length es. 0 \<le> grams (es ! j) \<Longrightarrow>
   \<forall>j<length (applyMove es idx delta). 0 \<le> grams (applyMove es idx delta ! j)"
  unfolding applyMove_def by (rule update_grams_nonneg) simp_all

lemma computeTotals_Some_iff: "(\<exists>t. computeTotals es fm = Some t) \<longleftrightarrow> variantsPresent fm es"
  by (simp add: computeTotals_eq)

lemma tryMoves_total:
  "variantsPresent fm es \<Longrightarrow> \<exists>r. tryMoves fm t es ms (bs, bi, bd) = Some r"
proof (induction ms arbitrary: bs bi bd)
  case Nil
  show ?case by simp
next
  case (Cons mv ms)
  obtain idx delta where mv: "mv = (idx, delta)" by (cases mv) auto
  from Cons.prems have "variantsPresent fm (trial es idx delta)"
    by (simp add: variantsPresent_ids [OF trial_ids(1)])
  then obtain tot where "computeTotals (trial es idx delta) fm = Some tot"
    using computeTotals_Some_iff by blast
  with Cons.IH [OF Cons.prems] show ?case
    by (simp add: mv Let_def)
qed

text \<open>What the state of the inner loops records about the best move so far.\<close>

lemma tryMoves_best:
  assumes "tryMoves fm t es ms (bs, bi, bd) = Some (bs', bi', bd')"
    and "\<forall>mv\<in>set ms. fst mv < length es"
    and "bs \<le> base"
    and "0 \<le> bi \<longrightarrow> nat bi < length es \<and> 0 \<le> grams (es ! nat bi) + bd
           \<and> scoreOf fm t (trial es (nat bi) bd) = Some bs \<and> bs < base - 1 / 1000000000"
  shows "bs' \<le> base \<and>
         (0 \<le> bi' \<longrightarrow> nat bi' < length es \<and> 0 \<le> grams (es ! nat bi') + bd'
           \<and> scoreOf fm t (trial es (nat bi') bd') = Some bs' \<and> bs' < base - 1 / 1000000000)"
  using assms
proof (induction ms arbitrary: bs bi bd)
  case Nil
  then show ?case by simp
next
  case (Cons mv ms)
  obtain idx delta where mv: "mv = (idx, delta)" by (cases mv) auto
  from Cons.prems(2) have idx: "idx < length es" and rest: "\<forall>mv\<in>set ms. fst mv < length es"
    by (simp_all add: mv)
  show ?case
  proof (cases "grams (es ! idx) + delta < 0")
    case True
    with Cons.prems(1) have "tryMoves fm t es ms (bs, bi, bd) = Some (bs', bi', bd')"
      by (simp add: mv)
    from Cons.IH [OF this rest Cons.prems(3,4)] show ?thesis .
  next
    case False
    with Cons.prems(1) obtain tot where tot: "computeTotals (trial es idx delta) fm = Some tot"
      by (auto simp: mv split: option.splits)
    show ?thesis
    proof (cases "score t tot < bs - 1 / 1000000000")
      case True
      with Cons.prems(1) False tot
      have run: "tryMoves fm t es ms (score t tot, int idx, delta) = Some (bs', bi', bd')"
        by (simp add: mv Let_def)
      have 3: "score t tot \<le> base" using True Cons.prems(3) by simp
      have 4: "0 \<le> int idx \<longrightarrow> nat (int idx) < length es \<and> 0 \<le> grams (es ! nat (int idx)) + delta
           \<and> scoreOf fm t (trial es (nat (int idx)) delta) = Some (score t tot)
           \<and> score t tot < base - 1 / 1000000000"
        using idx False tot True Cons.prems(3) by (simp add: scoreOf_def)
      from Cons.IH [OF run rest 3 4] show ?thesis .
    next
      case nb: False
      with Cons.prems(1) False tot
      have "tryMoves fm t es ms (bs, bi, bd) = Some (bs', bi', bd')"
        by (simp add: mv Let_def)
      from Cons.IH [OF this rest Cons.prems(3,4)] show ?thesis .
    qed
  qed
qed

lemma moves_valid: "\<forall>mv\<in>set (moves es). fst mv < length es"
  by (auto simp: moves_def)

lemma applyMove_trial: "0 \<le> grams (es ! idx) + delta \<Longrightarrow> applyMove es idx delta = trial es idx delta"
  by (simp add: applyMove_def trial_def)

lemma iteration_total: "variantsPresent fm es \<Longrightarrow> \<exists>st. iteration fm t es = Some st"
proof -
  assume vp: "variantsPresent fm es"
  then obtain tot where tot: "computeTotals es fm = Some tot"
    using computeTotals_Some_iff by blast
  obtain r where "tryMoves fm t es (moves es) (score t tot, - 1, 0) = Some r"
    using tryMoves_total [OF vp] by blast
  with tot show ?thesis
    by (cases r) (simp add: iteration_def Let_def)
qed

lemma iteration_Move:
  assumes "iteration fm t es = Some (Move idx delta)"
  shows "idx < length es \<and> 0 \<le> grams (es ! idx) + delta
         \<and> applyMove es idx delta = trial es idx delta
         \<and> (\<exists>s s'. scoreOf fm t es = Some s \<and> scoreOf fm t (applyMove es idx delta) = Some s'
                   \<and> 1 \<le> s \<and> s' < s - 1 / 1000000000)"
proof -
  from assms obtain tot where tot: "computeTotals es fm = Some tot"
    by (auto simp: iteration_def split: option.splits)
  define base where "base = score t tot"
  from assms tot have big: "1 \<le> base"
    by (auto simp: iteration_def Let_def base_def split: if_splits)
  with assms tot obtain bs bi bd where
    run: "tryMoves fm t es (moves es) (base, - 1, 0) = Some (bs, bi, bd)"
    and sel: "0 \<le> bi" "idx = nat bi" "delta = bd"
    by (auto simp: iteration_def Let_def base_def split: if_splits option.splits)
  have "bs \<le> base \<and>
         (0 \<le> bi \<longrightarrow> nat bi < length es \<and> 0 \<le> grams (es ! nat bi) + bd
           \<and> scoreOf fm t (trial es (nat bi) bd) = Some bs \<and> bs < base - 1 / 1000000000)"
    by (rule tryMoves_best [OF run moves_valid]) simp_all
  with sel have f: "idx < length es" "0 \<le> grams (es ! idx) + delta"
    "scoreOf fm t (trial es idx delta) = Some bs" "bs < base - 1 / 1000000000"
    by simp_all
  from f(2) have eq: "applyMove es idx delta = trial es idx delta"
    by (rule applyMove_trial)
  have "scoreOf fm t es = Some base" by (simp add: scoreOf_def tot base_def)
  with f eq big show ?thesis by simp
qed

lemma search_total: "variantsPresent fm es \<Longrightarrow> \<exists>es'. search n fm t es = Some es'"
proof (induction n arbitrary: es)
  case 0
  show ?case by simp
next
  case (Suc n)
  from iteration_total [OF Suc.prems] obtain st where st: "iteration fm t es = Some st" by blast
  show ?case
  proof (cases st)
    case Break
    with st show ?thesis by simp
  next
    case (Move idx delta)
    from Suc.prems have "variantsPresent fm (applyMove es idx delta)"
      by (simp add: variantsPresent_ids [OF applyMove_ids(1)])
    from Suc.IH [OF this] st Move show ?thesis by simp
  qed
qed

lemma search_ids:
  "search n fm t es = Some es' \<Longrightarrow> map foodId es' = map foodId es \<and> map basis es' = map basis es"
proof (induction n arbitrary: es)
  case 0
  then show ?case by simp
next
  case (Suc n)
  then show ?case
    by (auto simp: applyMove_ids split: option.splits Step.splits dest!: Suc.IH)
qed

lemma search_nonneg:
  "search n fm t es = Some es' \<Longrightarrow> \<forall>j<length es. 0 \<le> grams (es ! j) \<Longrightarrow>
   \<forall>j<length es'. 0 \<le> grams (es' ! j)"
proof (induction n arbitrary: es)
  case 0
  then show ?case by simp
next
  case (Suc n)
  show ?case
  proof (cases "iteration fm t es")
    case None
    with Suc.prems show ?thesis by simp
  next
    case (Some st)
    show ?thesis
    proof (cases st)
      case Break
      with Some Suc.prems show ?thesis by simp
    next
      case (Move idx delta)
      with Some Suc.prems have "search n fm t (applyMove es idx delta) = Some es'" by simp
      from Suc.IH [OF this applyMove_nonneg [OF Suc.prems(2)]] show ?thesis .
    qed
  qed
qed

lemma search_score:
  "search n fm t es = Some es' \<Longrightarrow> scoreOf fm t es = Some s \<Longrightarrow>
   \<exists>s'. scoreOf fm t es' = Some s' \<and> s' \<le> s \<and> (es' \<noteq> es \<longrightarrow> s' < s - 1 / 1000000000)"
proof (induction n arbitrary: es s)
  case 0
  then show ?case by simp
next
  case (Suc n)
  show ?case
  proof (cases "iteration fm t es")
    case None
    with Suc.prems show ?thesis by simp
  next
    case (Some st)
    show ?thesis
    proof (cases st)
      case Break
      with Some Suc.prems show ?thesis by simp
    next
      case (Move idx delta)
      with Some Suc.prems have run: "search n fm t (applyMove es idx delta) = Some es'" by simp
      from iteration_Move [OF Some [unfolded Move]] Suc.prems(2)
      obtain s1 where s1: "scoreOf fm t (applyMove es idx delta) = Some s1"
        "s1 < s - 1 / 1000000000"
        by auto
      from Suc.IH [OF run s1(1)] obtain s' where "scoreOf fm t es' = Some s'" "s' \<le> s1"
        by blast
      with s1(2) show ?thesis by auto
    qed
  qed
qed

lemma group_transfer:
  assumes "map foodId es' = map foodId es"
    and "\<forall>i\<in>set grp. i < length es \<and> fm (foodId (es ! i)) \<noteq> None"
  shows "\<forall>i\<in>set grp. i < length es' \<and> fm (foodId (es' ! i)) \<noteq> None"
proof
  fix i assume "i \<in> set grp"
  with assms(2) have i: "i < length es" "fm (foodId (es ! i)) \<noteq> None" by auto
  from assms(1) have len: "length es' = length es" by (rule map_eq_imp_length_eq)
  from assms(1) have "map foodId es' ! i = map foodId es ! i" by simp
  with i(1) len have "foodId (es' ! i) = foodId (es ! i)" by simp
  with i len show "i < length es' \<and> fm (foodId (es' ! i)) \<noteq> None" by simp
qed

lemma clampEntries_ids:
  "map foodId (clampEntries sel) = map foodId sel" "map basis (clampEntries sel) = map basis sel"
  by (simp_all add: clampEntries_def comp_def)

lemma clampEntries_nonneg: "\<forall>j<length (clampEntries sel). 0 \<le> grams (clampEntries sel ! j)"
  by (simp add: clampEntries_def)

lemma roundEntries_ids:
  "map foodId (roundEntries es) = map foodId es" "map basis (roundEntries es) = map basis es"
  by (simp_all add: roundEntries_def comp_def)

lemma roundEntries_nonneg:
  "\<forall>j<length es. 0 \<le> grams (es ! j) \<Longrightarrow> \<forall>j<length (roundEntries es). 0 \<le> grams (roundEntries es ! j)"
  by (simp add: roundEntries_def round2_nonneg)

lemma same_ids_nth:
  assumes "map foodId res = map foodId sel" and "map basis res = map basis sel"
  shows "length res = length sel
       \<and> (\<forall>i<length sel. foodId (res ! i) = foodId (sel ! i) \<and> basis (res ! i) = basis (sel ! i))"
proof -
  from assms(1) have len: "length res = length sel" by (rule map_eq_imp_length_eq)
  have "foodId (res ! i) = foodId (sel ! i) \<and> basis (res ! i) = basis (sel ! i)"
    if "i < length sel" for i
  proof -
    from assms have "map foodId res ! i = map foodId sel ! i" "map basis res ! i = map basis sel ! i"
      by simp_all
    with that len show ?thesis by simp
  qed
  with len show ?thesis by simp
qed


lemma search_numeral:
  "search (numeral k) fm t es =
     (case iteration fm t es of
        None \<Rightarrow> None
      | Some Break \<Rightarrow> Some es
      | Some (Move idx delta) \<Rightarrow> search (pred_numeral k) fm t (applyMove es idx delta))"
  by (simp add: numeral_eq_Suc)

lemmas solver_eval =
  greedyGenerate_def clampEntries_def roundEntries_def groupOf_def inGroup_def assign_def
  densityOf_def getVariant_def macroOf_def computeTotals_def score_def scoreOf_def moves_def
  trial_def step_def iteration_def applyMove_def search_numeral round2_def Let_def
  entryX_def catalogX_simps pureProtein_simps zeroTarget_def tenProtein_def

lemma solve_negative_input: "greedyGenerate [entryX (- 3)] catalogX tenProtein = Some [entryX 12]"
  by (simp add: solver_eval)

lemma iteration_entry7: "iteration catalogX tenProtein [entryX 7] = Some (Move 0 5)"
  by (simp add: solver_eval)

lemma search_entry7: "scoreOf catalogX tenProtein [entryX 7] = Some 3"
   "scoreOf catalogX tenProtein [entryX 12] = Some 2"
   "search 2 catalogX tenProtein [entryX 7] = Some [entryX 12]"
  by (simp_all add: solver_eval)

lemma variantsPresent_catalogX: "variantsPresent catalogX [entryX g]"
  by (simp add: variantsPresent_def entryX_def catalogX_simps pureProtein_simps)

lemma move_entry7: "applyMove [entryX 7] 0 5 = [entryX 12]" "trial [entryX 7] 0 5 = [entryX 12]"
  by (simp_all add: applyMove_def trial_def entryX_def)

lemma entryX_fields: "foodId (entryX g) = ''x''" "basis (entryX g) = Raw" "grams (entryX g) = g"
  by (simp_all add: entryX_def)

lemma iteration_Break_small:
  "scoreOf fm t es = Some s \<Longrightarrow> s < 1 \<Longrightarrow> iteration fm t es = Some Break"
  by (auto simp: scoreOf_def iteration_def Let_def)

lemma search_Break: "iteration fm t es = Some Break \<Longrightarrow> search (numeral k) fm t es = Some es"
  by (simp add: search_numeral)

text \<open>Without a variant for some resolved food neither the search nor the solver has a result.\<close>

lemma search_absent: "\<not> variantsPresent fm es \<Longrightarrow> search (numeral k) fm t es = None"
  by (simp add: search_numeral iteration_def computeTotals_eq)

lemma greedyGenerate_absent:
  assumes "\<not> variantsPresent fm selected"
  shows "greedyGenerate selected fm t = None"
proof (rule ccontr)
  assume "greedyGenerate selected fm t \<noteq> None"
  then obtain e1 e2 e3 e4 where
    a: "assign fm (groupOf fm Protein (clampEntries selected)) MacroP (g_p t * (7 / 10))
          (clampEntries selected) = Some e1"
       "assign fm (groupOf fm Carb (clampEntries selected)) MacroC (g_c t * (7 / 10)) e1 = Some e2"
       "assign fm (groupOf fm Fat (clampEntries selected)) MacroF (g_f t * (7 / 10)) e2 = Some e3"
       "search 1500 fm t e3 = Some e4"
    by (auto simp: greedyGenerate_def Let_def split: option.splits)
  from assign_ids [OF a(1)] assign_ids [OF a(2)] assign_ids [OF a(3)]
  have "map foodId e3 = map foodId selected"
    by (simp add: clampEntries_ids)
  from variantsPresent_ids [OF this, of fm] assms have "\<not> variantsPresent fm e3"
    by simp
  then have "search 1500 fm t e3 = None" by (rule search_absent)
  with a(4) show False by simp
qed

lemma greedyGenerate_zero_target:
  "g_p t = 0 \<Longrightarrow> g_c t = 0 \<Longrightarrow> g_f t = 0 \<Longrightarrow>
   greedyGenerate sel fm t = map_option roundEntries (search 1500 fm t (clampEntries sel))"
  by (simp add: greedyGenerate_def assign_def Let_def)

subsection \<open>computeTotals\<close>

text \<open>
  Claim C6. \<open>computeTotals\<close> returns the four sums of the per-entry contributions,
  each rounded once, after the summation; it has a result exactly when every food that
  an entry resolves to has a variant to resolve to. The contribution of an entry is
  zero when its \<open>foodId\<close> is not in the catalog, and such an entry can be removed from
  the list without changing the outcome; otherwise it is the density of the resolved
  variant times \<open>max(0, grams) / 100\<close>, where the resolved variant is one with the
  entry's basis if the food has one and the food's first variant if it has none.
  With non-negative densities every component of the result is non-negative, and the
  empty list gives all-zero totals.
\<close>

theorem computeTotals_aggregates:
  "computeTotals es fm =
     (if variantsPresent fm es
      then Some \<lparr> t_kcal = round2 (sum_list (map (contribution fm kcalOf) es)),
                  t_p = round2 (sum_list (map (contribution fm v_p) es)),
                  t_c = round2 (sum_list (map (contribution fm v_c) es)),
                  t_f = round2 (sum_list (map (contribution fm v_f) es)) \<rparr>
      else None)
   \<and> computeTotals [] fm = Some \<lparr> t_kcal = 0, t_p = 0, t_c = 0, t_f = 0 \<rparr>
   \<and> (fm (foodId e0) = None \<longrightarrow>
        contribution fm dens e0 = 0
        \<and> computeTotals (xs @ e0 # ys) fm = computeTotals (xs @ ys) fm)
   \<and> (fm (foodId e1) = Some food1 \<and> variants food1 = v0 # vs
        \<and> (\<forall>v\<in>set (variants food1). v_basis v \<noteq> basis e1) \<longrightarrow>
        getVariant food1 (basis e1) = Some v0
        \<and> contribution fm dens e1 = dens v0 * (max 0 (grams e1) / 100))
   \<and> (fm (foodId e2) = Some food2 \<and> v2 \<in> set (variants food2) \<and> v_basis v2 = basis e2 \<longrightarrow>
        (\<exists>w. getVariant food2 (basis e2) = Some w \<and> w \<in> set (variants food2)
             \<and> v_basis w = basis e2
             \<and> contribution fm dens e2 = dens w * (max 0 (grams e2) / 100)))
   \<and> ((\<forall>e\<in>set es. \<forall>food v. fm (foodId e) = Some food \<and> v \<in> set (variants food) \<longrightarrow>
            0 \<le> kcalOf v \<and> 0 \<le> v_p v \<and> 0 \<le> v_c v \<and> 0 \<le> v_f v)
        \<and> computeTotals es fm = Some t \<longrightarrow>
        0 \<le> t_kcal t \<and> 0 \<le> t_p t \<and> 0 \<le> t_c t \<and> 0 \<le> t_f t)"
proof -
  have a: "computeTotals [] fm = Some \<lparr> t_kcal = 0, t_p = 0, t_c = 0, t_f = 0 \<rparr>"
    by (simp add: computeTotals_def round2_0)
  have b: "getVariant food1 (basis e1) = Some v0
        \<and> contribution fm dens e1 = dens v0 * (max 0 (grams e1) / 100)"
    if "fm (foodId e1) = Some food1" "variants food1 = v0 # vs"
       "\<forall>v\<in>set (variants food1). v_basis v \<noteq> basis e1"
    using that getVariant_fallback [OF that(3,2)] by (simp add: contribution_def)
  have c: "\<exists>w. getVariant food2 (basis e2) = Some w \<and> w \<in> set (variants food2)
             \<and> v_basis w = basis e2
             \<and> contribution fm dens e2 = dens w * (max 0 (grams e2) / 100)"
    if "fm (foodId e2) = Some food2" "v2 \<in> set (variants food2)" "v_basis v2 = basis e2"
    using that(1) getVariant_match [OF that(2,3)] by (auto simp: contribution_def)
  from a b c computeTotals_eq [of es fm] contribution_absent [of fm e0 dens]
    computeTotals_absent [of fm e0 xs ys] computeTotals_nonneg [of es fm t]
  show ?thesis by blast
qed

theorem computeTotals_aggregates_witness:
  "variantsPresent catalogX demoEntries
   \<and> computeTotals demoEntries catalogX = Some \<lparr> t_kcal = 0, t_p = 1 / 100, t_c = 0, t_f = 0 \<rparr>
   \<and> round2 (contribution catalogX v_p (demoEntries ! 0)) = 0
   \<and> contribution catalogX v_p (demoEntries ! 1) = 0
   \<and> getVariant pureProtein Cooked = Some \<lparr> v_basis = Raw, v_kcal = None, v_p = 100, v_c = 0, v_f = 0 \<rparr>
   \<and> contribution catalogX v_p (demoEntries ! 3) = 0"
  using computeTotals_aggregates [of demoEntries catalogX "demoEntries ! 1" v_p "[]" "[]"
      "demoEntries ! 2" pureProtein "\<lparr> v_basis = Raw, v_kcal = None, v_p = 100, v_c = 0, v_f = 0 \<rparr>" "[]"
      "demoEntries ! 0" pureProtein "\<lparr> v_basis = Raw, v_kcal = None, v_p = 100, v_c = 0, v_f = 0 \<rparr>"
      "\<lparr> t_kcal = 0, t_p = 1 / 100, t_c = 0, t_f = 0 \<rparr>"]
  by (simp add: demoEntries_def entryX_def catalogX_simps pureProtein_simps variantsPresent_def
      contribution_def getVariant_def kcalOf_def round2_def)

text \<open>
  Claim C5 says that no input makes the totals or the solver abort, a food with an
  empty variant list included. For such a food \<open>getVariant\<close> yields \<open>undefined\<close>, and
  both \<open>computeTotals\<close> (reading \<open>v.kcal\<close>) and \<open>greedyGenerate\<close> (reading
  \<open>v[macro]\<close>) raise a \<open>TypeError\<close> instead of returning a default.
\<close>

theorem empty_variants_raise:
  "catalogNoVariants (foodId (entryX 100)) = Some noVariants
   \<and> variants noVariants = []
   \<and> getVariant noVariants (basis (entryX 100)) = None
   \<and> computeTotals [entryX 100] catalogNoVariants = None
   \<and> greedyGenerate [entryX 100] catalogNoVariants tenProtein = None"
  by (simp add: catalogNoVariants_def entryX_def noVariants_simps getVariant_def computeTotals_def
      greedyGenerate_def clampEntries_def groupOf_def inGroup_def assign_def densityOf_def
      tenProtein_def Let_def)

subsection \<open>greedyGenerate\<close>

text \<open>
  Claim C3. For every entry list, catalog and target the solver is to return a list of
  the length of its input, entry by entry with the input's \<open>foodId\<close> and \<open>basis\<close>
  and a quantity that is not negative. When a selected food has an empty variant list
  it returns nothing: with a positive need \<open>assign\<close> reads \<open>v[macro]\<close> of the
  undefined variant, and with an all-zero target the first \<open>computeTotals\<close> of the
  search reads \<open>v.kcal\<close> of it. Both reads raise a \<open>TypeError\<close>; it is the defect
  of claim C5, met through the solver.
\<close>

theorem greedyGenerate_no_result:
  "catalogNoVariants (foodId (entryX (- 3))) = Some noVariants
   \<and> variants noVariants = []
   \<and> greedyGenerate [entryX (- 3)] catalogNoVariants tenProtein = None
   \<and> greedyGenerate [entryX (- 3)] catalogNoVariants zeroTarget = None"
  by (simp add: solver_eval catalogNoVariants_def noVariants_simps)

text \<open>
  On every input that does not meet the missing guard, that is whenever each food that
  an entry resolves to has a variant, the solver returns such a list, whatever the sign
  of the input quantities (and by \<open>greedyGenerate_absent\<close> on no other input).
\<close>

lemma greedyGenerate_preserves:
  assumes vp: "variantsPresent fm selected"
  shows "\<exists>res. greedyGenerate selected fm t = Some res
           \<and> length res = length selected
           \<and> (\<forall>i<length selected. foodId (res ! i) = foodId (selected ! i)
                 \<and> basis (res ! i) = basis (selected ! i)
                 \<and> 0 \<le> grams (res ! i))"
proof -
  define e0 where "e0 = clampEntries selected"
  have id0: "map foodId e0 = map foodId selected" "map basis e0 = map basis selected"
    by (simp_all add: e0_def clampEntries_ids)
  have nn0: "\<forall>j<length e0. 0 \<le> grams (e0 ! j)"
    by (simp add: e0_def clampEntries_nonneg)
  have vp0: "variantsPresent fm e0"
    using vp by (simp add: variantsPresent_ids [OF id0(1)])
  have g0: "\<forall>i\<in>set (groupOf fm cat e0). i < length e0 \<and> fm (foodId (e0 ! i)) \<noteq> None" for cat
    using groupOf_valid [of _ fm cat e0] by blast
  obtain e1 where a1: "assign fm (groupOf fm Protein e0) MacroP (g_p t * (7 / 10)) e0 = Some e1"
    using assign_total [OF vp0 g0] by blast
  have id1: "map foodId e1 = map foodId e0" "map basis e1 = map basis e0"
    using assign_ids [OF a1] by simp_all
  have nn1: "\<forall>j<length e1. 0 \<le> grams (e1 ! j)"
    by (rule assign_nonneg [OF a1 nn0])
  have vp1: "variantsPresent fm e1"
    using vp0 by (simp add: variantsPresent_ids [OF id1(1)])
  obtain e2 where a2: "assign fm (groupOf fm Carb e0) MacroC (g_c t * (7 / 10)) e1 = Some e2"
    using assign_total [OF vp1 group_transfer [OF id1(1) g0]] by blast
  have id2: "map foodId e2 = map foodId e0" "map basis e2 = map basis e0"
    using assign_ids [OF a2] id1 by simp_all
  have nn2: "\<forall>j<length e2. 0 \<le> grams (e2 ! j)"
    by (rule assign_nonneg [OF a2 nn1])
  have vp2: "variantsPresent fm e2"
    using vp0 by (simp add: variantsPresent_ids [OF id2(1)])
  obtain e3 where a3: "assign fm (groupOf fm Fat e0) MacroF (g_f t * (7 / 10)) e2 = Some e3"
    using assign_total [OF vp2 group_transfer [OF id2(1) g0]] by blast
  have id3: "map foodId e3 = map foodId e0" "map basis e3 = map basis e0"
    using assign_ids [OF a3] id2 by simp_all
  have nn3: "\<forall>j<length e3. 0 \<le> grams (e3 ! j)"
    by (rule assign_nonneg [OF a3 nn2])
  have vp3: "variantsPresent fm e3"
    using vp0 by (simp add: variantsPresent_ids [OF id3(1)])
  obtain e4 where a4: "search 1500 fm t e3 = Some e4"
    using search_total [OF vp3] by blast
  have id4: "map foodId e4 = map foodId e0" "map basis e4 = map basis e0"
    using search_ids [OF a4] id3 by simp_all
  have nn4: "\<forall>j<length e4. 0 \<le> grams (e4 ! j)"
    by (rule search_nonneg [OF a4 nn3])
  define res where "res = roundEntries e4"
  have gg: "greedyGenerate selected fm t = Some res"
    using a1 a2 a3 a4 by (simp add: greedyGenerate_def Let_def e0_def [symmetric] res_def)
  have idr: "map foodId res = map foodId selected" "map basis res = map basis selected"
    using id4 id0 by (simp_all add: res_def roundEntries_ids)
  have nnr: "\<forall>j<length res. 0 \<le> grams (res ! j)"
    unfolding res_def by (rule roundEntries_nonneg [OF nn4])
  from same_ids_nth [OF idr] nnr gg show ?thesis by auto
qed

lemma greedyGenerate_preserves_example:
  "variantsPresent catalogX [entryX (- 3)]
   \<and> greedyGenerate [entryX (- 3)] catalogX tenProtein = Some [entryX 12]
   \<and> (\<exists>res. greedyGenerate [entryX (- 3)] catalogX tenProtein = Some res
           \<and> length res = 1
           \<and> foodId (res ! 0) = ''x'' \<and> basis (res ! 0) = Raw \<and> 0 \<le> grams (res ! 0))"
  using greedyGenerate_preserves [of catalogX "[entryX (- 3)]" tenProtein]
  by (simp add: solve_negative_input variantsPresent_catalogX entryX_fields)

text \<open>
  Claim C10. A pass of the search that applies a move has chosen an index of the list
  and a delta that keeps the quantity non-negative, so that the clamped update
  \<open>applyMove\<close> is the plain trial update; the score after the move is below the score
  before it by more than \<open>1e-9\<close>. Whenever the search returns, the score of its result
  does not exceed the score at entry, and is below it by more than \<open>1e-9\<close> if any move
  was applied. On a catalog with variants for every resolved food the search does return,
  for every number of passes.
\<close>

theorem local_search_descends:
  "(iteration fm t es = Some (Move idx delta) \<longrightarrow>
      idx < length es \<and> 0 \<le> grams (es ! idx) + delta
      \<and> applyMove es idx delta = trial es idx delta
      \<and> (\<exists>s s'. scoreOf fm t es = Some s \<and> scoreOf fm t (applyMove es idx delta) = Some s'
                \<and> s' < s - 1 / 1000000000))
   \<and> (search n fm t es = Some es' \<and> scoreOf fm t es = Some s \<longrightarrow>
        (\<exists>s'. scoreOf fm t es' = Some s' \<and> s' \<le> s \<and> (es' \<noteq> es \<longrightarrow> s' < s - 1 / 1000000000)))
   \<and> (variantsPresent fm es \<longrightarrow>
        (\<exists>es' s s'. search n fm t es = Some es' \<and> scoreOf fm t es = Some s
                    \<and> scoreOf fm t es' = Some s' \<and> s' \<le> s))"
proof -
  have a: "idx < length es \<and> 0 \<le> grams (es ! idx) + delta
      \<and> applyMove es idx delta = trial es idx delta
      \<and> (\<exists>s s'. scoreOf fm t es = Some s \<and> scoreOf fm t (applyMove es idx delta) = Some s'
                \<and> s' < s - 1 / 1000000000)"
    if "iteration fm t es = Some (Move idx delta)"
    using iteration_Move [OF that] by blast
  have b: "\<exists>s'. scoreOf fm t es' = Some s' \<and> s' \<le> s \<and> (es' \<noteq> es \<longrightarrow> s' < s - 1 / 1000000000)"
    if "search n fm t es = Some es'" "scoreOf fm t es = Some s"
    using search_score [OF that] .
  have c: "\<exists>es' s s'. search n fm t es = Some es' \<and> scoreOf fm t es = Some s
                    \<and> scoreOf fm t es' = Some s' \<and> s' \<le> s"
    if vp: "variantsPresent fm es"
  proof -
    from search_total [OF vp] obtain es' where run: "search n fm t es = Some es'" by blast
    from vp obtain tot where "computeTotals es fm = Some tot"
      using computeTotals_Some_iff by blast
    then have sc: "scoreOf fm t es = Some (score t tot)" by (simp add: scoreOf_def)
    from search_score [OF run sc] run sc show ?thesis by blast
  qed
  from a b c show ?thesis by blast
qed

theorem local_search_descends_witness:
  "iteration catalogX tenProtein [entryX 7] = Some (Move 0 5)
   \<and> applyMove [entryX 7] 0 5 = [entryX 12]
   \<and> scoreOf catalogX tenProtein [entryX 7] = Some 3
   \<and> scoreOf catalogX tenProtein [entryX 12] = Some 2
   \<and> search 2 catalogX tenProtein [entryX 7] = Some [entryX 12]
   \<and> variantsPresent catalogX [entryX 7]
   \<and> (\<exists>s s'. scoreOf catalogX tenProtein [entryX 7] = Some s
             \<and> scoreOf catalogX tenProtein (applyMove [entryX 7] 0 5) = Some s'
             \<and> s' < s - 1 / 1000000000)"
  using local_search_descends [of catalogX tenProtein "[entryX 7]" 0 5 2 "[entryX 12]" 3]
  by (simp add: iteration_entry7 search_entry7 move_entry7 variantsPresent_catalogX)

text \<open>
  Claim C4, as amended. On the empty entry list the solver returns the empty list. With
  an all-zero target the first phase changes nothing, so the result is the local search
  on the clamped input, rounded; it is the clamped and rounded input itself when the
  totals of the clamped input already score below 1 against the target.
\<close>

theorem greedyGenerate_degenerate:
  "greedyGenerate [] fm t = Some []
   \<and> (g_p t = 0 \<and> g_c t = 0 \<and> g_f t = 0 \<longrightarrow>
        greedyGenerate sel fm t = map_option roundEntries (search 1500 fm t (clampEntries sel)))
   \<and> (g_p t = 0 \<and> g_c t = 0 \<and> g_f t = 0
        \<and> scoreOf fm t (clampEntries sel) = Some s \<and> s < 1 \<longrightarrow>
        greedyGenerate sel fm t = Some (roundEntries (clampEntries sel)))"
proof -
  have "computeTotals [] fm = Some \<lparr> t_kcal = 0, t_p = 0, t_c = 0, t_f = 0 \<rparr>"
    by (simp add: computeTotals_def round2_0)
  then have "iteration fm t [] = Some Break"
    by (simp add: iteration_def Let_def moves_def split: if_splits)
  then have "search 1500 fm t [] = Some []" by (rule search_Break)
  then have a: "greedyGenerate [] fm t = Some []"
    by (simp add: greedyGenerate_def clampEntries_def groupOf_def assign_def roundEntries_def)
  have c: "greedyGenerate sel fm t = Some (roundEntries (clampEntries sel))"
    if z: "g_p t = 0" "g_c t = 0" "g_f t = 0"
      and s: "scoreOf fm t (clampEntries sel) = Some s" "s < 1"
  proof -
    from iteration_Break_small [OF s]
    have "search 1500 fm t (clampEntries sel) = Some (clampEntries sel)"
      by (rule search_Break)
    with greedyGenerate_zero_target [OF z] show ?thesis by simp
  qed
  from a c greedyGenerate_zero_target [of t sel fm] show ?thesis by blast
qed

theorem greedyGenerate_degenerate_witness:
  "g_p zeroTarget = 0 \<and> g_c zeroTarget = 0 \<and> g_f zeroTarget = 0
   \<and> scoreOf catalogX zeroTarget (clampEntries [entryX (1 / 4)]) = Some (1 / 4)
   \<and> greedyGenerate [entryX (1 / 4)] catalogX zeroTarget = Some [entryX (1 / 4)]
   \<and> greedyGenerate [] catalogX zeroTarget = Some []"
  using greedyGenerate_degenerate [of catalogX zeroTarget "[entryX (1 / 4)]" "1 / 4"]
  by (simp add: solver_eval)

text \<open>
  Claim C4 as stated makes the solver a no-op for every all-zero target. The local
  search still runs: 5 g of a food with 100 g of protein per 100 g score 5 against the
  zero target, the move by \<open>-5\<close> scores 0, and the solver returns 0 g.
\<close>

theorem greedyGenerate_zero_target_shrinks:
  "g_p zeroTarget = 0 \<and> g_c zeroTarget = 0 \<and> g_f zeroTarget = 0
   \<and> roundEntries (clampEntries [entryX 5]) = [entryX 5]
   \<and> greedyGenerate [entryX 5] catalogX zeroTarget = Some [entryX 0]
   \<and> greedyGenerate [entryX 5] catalogX zeroTarget \<noteq> Some (roundEntries (clampEntries [entryX 5]))"
  by (simp add: solver_eval)

end
